theory Spec2Isabelle
  imports Main "HOL-Library.Word"
begin

unbundle bit_operations_syntax

section \<open>Bytes, strings and errors\<close>

text \<open>
  A Go \<^verbatim>\<open>string\<close> is a sequence of bytes; it is modelled by \<^typ>\<open>string\<close>, whose
  characters are the 256 byte values. A \<^verbatim>\<open>[]byte\<close> is a list of 8-bit words. The
  conversions \<^verbatim>\<open>[]byte(s)\<close> and \<^verbatim>\<open>string(b)\<close> copy the bytes.
\<close>

type_synonym byte = "8 word"

definition byte_of_char :: "char \<Rightarrow> byte" where
  "byte_of_char c = of_nat (of_char c)"

definition char_of_byte :: "byte \<Rightarrow> char" where
  "char_of_byte b = char_of (unat b)"

definition bytes_of_string :: "string \<Rightarrow> byte list" where
  "bytes_of_string s = map byte_of_char s"

definition string_of_bytes :: "byte list \<Rightarrow> string" where
  "string_of_bytes b = map char_of_byte b"

text \<open>
  Errors of \<^verbatim>\<open>github.com/zeebo/errs\<close>: an error made by \<^verbatim>\<open>errs.New\<close> has no class, one
  made by \<^verbatim>\<open>C.New\<close> has class \<^verbatim>\<open>C\<close>. The format string and its arguments are kept apart
  (no \<^verbatim>\<open>Sprintf\<close>). \<open>CorruptInputError\<close> is the error of \<^verbatim>\<open>encoding/base32\<close>; \<open>External\<close>
  is an error value handed back by a library outside this package (\<^verbatim>\<open>crypto/rand\<close>,
  \<^verbatim>\<open>storj.io/common\<close>, \<^verbatim>\<open>storj.io/uplink\<close>), named by its message.
\<close>

type_synonym Class = string

datatype fmtarg = ArgInt int | ArgStr string | ArgHex "byte list"

datatype error =
    Err "Class option" string "fmtarg list"
  | CorruptInputError int
  | External string

definition NotFound :: Class where
  "NotFound = ''not found''"

definition errs_New :: "string \<Rightarrow> fmtarg list \<Rightarrow> error" where
  "errs_New fmt args = Err None fmt args"

definition Class_New :: "Class \<Rightarrow> string \<Rightarrow> fmtarg list \<Rightarrow> error" where
  "Class_New c fmt args = Err (Some c) fmt args"

text \<open>
  \<^verbatim>\<open>errs.Wrap\<close> attaches a stack trace and puts the error in no new class: class
  membership and message are those of the wrapped error. Stack traces are not modelled.
\<close>

definition errs_Wrap :: "error \<Rightarrow> error" where
  "errs_Wrap e = e"

fun Class_Has :: "Class \<Rightarrow> error \<Rightarrow> bool" where
  "Class_Has c (Err cl _ _) = (cl = Some c)"
| "Class_Has c (CorruptInputError _) = False"
| "Class_Has c (External _) = False"

text \<open>A call either returns or stops the goroutine with a run-time panic.\<close>

datatype 'a go_result = Return 'a | Panic string

section \<open>Codec\<close>

subsection \<open>\<^verbatim>\<open>strings.ToUpper\<close>, \<^verbatim>\<open>strings.ToLower\<close>\<close>

text \<open>
  Both functions have a byte-wise path for strings whose bytes are all below
  \<^verbatim>\<open>utf8.RuneSelf\<close> = 0x80, and map every rune through the Unicode case tables
  otherwise. The tables are not part of this development: the second path is the
  parameter \<open>map_ToUpper\<close> (\<open>map_ToLower\<close>).
\<close>

record unicode_tables =
  map_ToUpper :: "string \<Rightarrow> string"
  map_ToLower :: "string \<Rightarrow> string"

definition isASCII :: "string \<Rightarrow> bool" where
  "isASCII s = (\<forall>c \<in> set s. (of_char c :: nat) < 128)"

definition upper_byte :: "char \<Rightarrow> char" where
  "upper_byte c = (if (97::nat) \<le> of_char c \<and> (of_char c :: nat) \<le> 122
                   then char_of ((of_char c :: nat) - 32) else c)"

definition lower_byte :: "char \<Rightarrow> char" where
  "lower_byte c = (if (65::nat) \<le> of_char c \<and> (of_char c :: nat) \<le> 90
                   then char_of ((of_char c :: nat) + 32) else c)"

definition strings_ToUpper :: "unicode_tables \<Rightarrow> string \<Rightarrow> string" where
  "strings_ToUpper U s = (if isASCII s then map upper_byte s else map_ToUpper U s)"

definition strings_ToLower :: "unicode_tables \<Rightarrow> string \<Rightarrow> string" where
  "strings_ToLower U s = (if isASCII s then map lower_byte s else map_ToLower U s)"

subsection \<open>\<^verbatim>\<open>encoding/base32\<close>, standard alphabet, no padding\<close>

definition encodeStd :: string where
  "encodeStd = ''ABCDEFGHIJKLMNOPQRSTUVWXYZ234567''"

text \<open>\<^verbatim>\<open>enc.encode[i]\<close>, for an index below 32.\<close>

definition encode_tab :: "byte \<Rightarrow> byte" where
  "encode_tab i = byte_of_char (encodeStd ! unat i)"

text \<open>\<^verbatim>\<open>enc.decodeMap[c]\<close>: 0xFF for every byte that is not in the alphabet.\<close>

definition decodeMap :: "byte \<Rightarrow> byte" where
  "decodeMap c =
     (case map_of (zip (bytes_of_string encodeStd) (map of_nat [0..<32])) c of
        None \<Rightarrow> 0xFF | Some i \<Rightarrow> i)"

text \<open>\<^verbatim>\<open>byte(enc.padChar)\<close> for \<^verbatim>\<open>padChar = NoPadding = -1\<close>.\<close>

definition padByte :: byte where
  "padByte = 0xFF"

definition EncodedLen :: "nat \<Rightarrow> nat" where
  "EncodedLen n = (n * 8 + 4) div 5"

text \<open>
  The \<^verbatim>\<open>switch len(src)\<close> of \<^verbatim>\<open>Encode\<close> with its fall-through: the eight 5-bit groups
  \<^verbatim>\<open>b[0..7]\<close> of the next quantum of at most five bytes.
\<close>

definition unpack :: "byte list \<Rightarrow> byte list" where
  "unpack src =
    (let n = length src;
         b = replicate 8 (0::byte);
         b = (if 5 \<le> n then
                (b[7 := src ! 4 AND 0x1F])[6 := drop_bit 5 (src ! 4)] else b);
         b = (if 4 \<le> n then
                ((b[6 := b ! 6 OR (push_bit 3 (src ! 3) AND 0x1F)])
                   [5 := drop_bit 2 (src ! 3) AND 0x1F])
                   [4 := drop_bit 7 (src ! 3)] else b);
         b = (if 3 \<le> n then
                (b[4 := b ! 4 OR (push_bit 1 (src ! 2) AND 0x1F)])
                   [3 := drop_bit 4 (src ! 2) AND 0x1F] else b);
         b = (if 2 \<le> n then
                ((b[3 := b ! 3 OR (push_bit 4 (src ! 1) AND 0x1F)])
                   [2 := drop_bit 1 (src ! 1) AND 0x1F])
                   [1 := drop_bit 6 (src ! 1) AND 0x1F] else b);
         b = (if 1 \<le> n then
                (b[1 := b ! 1 OR (push_bit 2 (src ! 0) AND 0x1F)])
                   [0 := drop_bit 3 (src ! 0)] else b)
     in b)"

text \<open>
  The loop of \<^verbatim>\<open>Encode\<close>; \<open>n\<close> is \<^verbatim>\<open>len(dst)\<close>. Without padding the loop is left
  after a quantum of fewer than five bytes.
\<close>

function Encode :: "nat \<Rightarrow> byte list \<Rightarrow> byte list" where
  "Encode n src =
     (if src = [] then []
      else let b = unpack src;
               out = map (\<lambda>i. encode_tab (b ! i AND 31)) [0..<min n 8]
           in if length src < 5 then out
              else out @ Encode (n - 8) (drop 5 src))"
  by pat_completeness auto
termination
  by (relation "measure (\<lambda>(n, src). length src)") auto

declare Encode.simps [simp del]

definition EncodeToString :: "byte list \<Rightarrow> string" where
  "EncodeToString src = string_of_bytes (Encode (EncodedLen (length src)) src)"

definition stripNewlines :: "byte list \<Rightarrow> byte list" where
  "stripNewlines src = filter (\<lambda>c. c \<noteq> 13 \<and> c \<noteq> 10) src"

text \<open>
  The inner loop of \<^verbatim>\<open>decode\<close>: it reads up to eight characters of one quantum into
  \<^verbatim>\<open>dbuf\<close>. \<open>Quantum dlen dbuf fin rest\<close> is the state at the \<^verbatim>\<open>break\<close> (or after the
  eighth character); \<open>olen\<close> is the length of the whole input, for the error offsets.
\<close>

datatype quantum = Corrupt int | Quantum nat "byte list" bool "byte list"

function readQuantum :: "nat \<Rightarrow> nat \<Rightarrow> byte list \<Rightarrow> byte list \<Rightarrow> quantum" where
  "readQuantum olen j dbuf src =
     (if j < 8 then
        (case src of
           [] \<Rightarrow> Quantum j dbuf True []
         | c # rest \<Rightarrow>
             if c = padByte \<and> 2 \<le> j \<and> length rest < 8 then
               (if length rest + j < 8 - 1 then Corrupt (int olen)
                else case filter (\<lambda>k. k < length rest \<and> rest ! k \<noteq> padByte) [0..<8 - 1 - j] of
                       k # _ \<Rightarrow> Corrupt (int olen - int (length rest) + int k - 1)
                     | [] \<Rightarrow>
                         if j = 1 \<or> j = 3 \<or> j = 6
                         then Corrupt (int olen - int (length rest) - 1)
                         else Quantum j dbuf True rest)
             else if decodeMap c = 0xFF then Corrupt (int olen - int (length rest) - 1)
             else readQuantum olen (j + 1) (dbuf[j := decodeMap c]) rest)
      else Quantum 8 dbuf False src)"
  by pat_completeness auto
termination
  by (relation "measure (\<lambda>(olen, j, dbuf, src). 8 - j)") auto

text \<open>The \<^verbatim>\<open>switch dlen\<close> that packs the 5-bit groups into bytes, with its fall-through.\<close>

definition pack :: "nat \<Rightarrow> byte list \<Rightarrow> byte list" where
  "pack dlen dbuf =
     take (if dlen = 8 then 5 else if dlen = 7 then 4 else if dlen = 5 then 3
           else if dlen = 4 then 2 else if dlen = 2 then 1 else 0)
       [push_bit 3 (dbuf ! 0) OR drop_bit 2 (dbuf ! 1),
        push_bit 6 (dbuf ! 1) OR push_bit 1 (dbuf ! 2) OR drop_bit 4 (dbuf ! 3),
        push_bit 4 (dbuf ! 3) OR drop_bit 1 (dbuf ! 4),
        push_bit 7 (dbuf ! 4) OR push_bit 2 (dbuf ! 5) OR drop_bit 3 (dbuf ! 6),
        push_bit 5 (dbuf ! 6) OR dbuf ! 7]"

text \<open>
  The outer loop of \<^verbatim>\<open>decode\<close>. The bytes written before an error are dropped: the
  caller below does not look at them.
\<close>

function decode :: "nat \<Rightarrow> byte list \<Rightarrow> error + byte list" where
  "decode olen src =
     (if src = [] then Inr []
      else case readQuantum olen 0 (replicate 8 0) src of
             Corrupt off \<Rightarrow> Inl (CorruptInputError off)
           | Quantum dlen dbuf fin rest \<Rightarrow>
               if fin then Inr (pack dlen dbuf)
               else (case decode olen rest of
                       Inl e \<Rightarrow> Inl e
                     | Inr ys \<Rightarrow> Inr (pack dlen dbuf @ ys)))"
  by pat_completeness auto
termination
proof (relation "measure (\<lambda>(olen, src). length src)", goal_cases)
  case 1
  show ?case by simp
next
  case (2 olen src dlen dbuf fin rest)
  have shrink: "readQuantum n j d s = Quantum dl db f r \<Longrightarrow>
      length r \<le> length s \<and> (j < 8 \<longrightarrow> s \<noteq> [] \<longrightarrow> length r < length s)"
    for n j d s dl db f r
  proof (induction n j d s rule: readQuantum.induct)
    case (1 n j d s)
    show ?case
    proof (cases "j < 8")
      case False
      with "1.prems" show ?thesis by simp
    next
      case True
      show ?thesis
      proof (cases s)
        case Nil
        with True "1.prems" show ?thesis by simp
      next
        case (Cons c cs)
        show ?thesis
        proof (cases "c = padByte \<and> 2 \<le> j \<and> length cs < 8")
          case pad: True
          with True Cons "1.prems" show ?thesis
            by (auto split: if_splits list.splits)
        next
          case nopad: False
          show ?thesis
          proof (cases "decodeMap c = 0xFF")
            case True
            with \<open>j < 8\<close> Cons nopad "1.prems" show ?thesis by auto
          next
            case False
            with \<open>j < 8\<close> Cons nopad "1.prems"
            have "readQuantum n (j + 1) (d[j := decodeMap c]) cs = Quantum dl db f r"
              by auto
            from "1.IH" [OF \<open>j < 8\<close> Cons nopad False this] Cons show ?thesis by simp
          qed
        qed
      qed
    qed
  qed
  from 2 have "length rest < length src"
    using shrink [of olen 0 "replicate 8 0" src dlen dbuf fin rest] by simp
  then show ?case by simp
qed

declare readQuantum.simps [simp del]

declare decode.simps [simp del]

definition DecodeString :: "string \<Rightarrow> error + byte list" where
  "DecodeString s =
     (let buf = stripNewlines (bytes_of_string s) in decode (length buf) buf)"

subsection \<open>Keys\<close>

text \<open>
  \<^verbatim>\<open>EncryptionKey\<close> is \<^verbatim>\<open>[16]byte\<close> and \<^verbatim>\<open>SecretKey\<close> is \<^verbatim>\<open>[32]byte\<close>: byte lists of
  that length. The built-in \<^verbatim>\<open>copy(dst, src)\<close> overwrites the first
  \<^verbatim>\<open>min(len(dst), len(src))\<close> elements of \<open>dst\<close>.
\<close>

type_synonym EncryptionKey = "byte list"
type_synonym SecretKey = "byte list"
type_synonym KeyHash = "byte list"

definition copy :: "byte list \<Rightarrow> byte list \<Rightarrow> byte list" where
  "copy dst src = take (length dst) src @ drop (length src) dst"

definition encKeySizeEncoded :: nat where
  "encKeySizeEncoded = 28"

definition encKeyVersionByte :: byte where
  "encKeyVersionByte = 77"

definition secKeyVersionByte :: byte where
  "secKeyVersionByte = 78"

text \<open>
  \<^verbatim>\<open>func (k *EncryptionKey) FromBase32(encoded string) error\<close>. The result is the
  receiver after the call together with the returned error; \<^verbatim>\<open>data[0]\<close> on an empty
  slice is a run-time panic.
\<close>

definition FromBase32 ::
  "unicode_tables \<Rightarrow> EncryptionKey \<Rightarrow> string \<Rightarrow> (EncryptionKey \<times> error option) go_result" where
  "FromBase32 U k encoded =
     (if length encoded \<noteq> encKeySizeEncoded then
        Return (k, Some (errs_New
          ''alphanumeric encryption key length expected to be %d, was %d''
          [ArgInt (int encKeySizeEncoded), ArgInt (int (length encoded))]))
      else case DecodeString (strings_ToUpper U encoded) of
             Inl err \<Rightarrow> Return (k, Some (errs_Wrap err))
           | Inr data \<Rightarrow>
               (case data of
                  [] \<Rightarrow> Panic ''index out of range [0] with length 0''
                | v # rest \<Rightarrow>
                    if v \<noteq> encKeyVersionByte then
                      Return (k, Some (errs_New
                        ''encryption key did not start with expected byte'' []))
                    else Return (copy k rest, None)))"

text \<open>\<^verbatim>\<open>func ToBase32(versionByte byte, k []byte) string\<close> and its two callers.\<close>

definition ToBase32 :: "unicode_tables \<Rightarrow> byte \<Rightarrow> byte list \<Rightarrow> string" where
  "ToBase32 U versionByte k =
     (let keyWithMagic = [versionByte] @ k
      in strings_ToLower U (EncodeToString keyWithMagic))"

definition EncryptionKey_ToBase32 :: "unicode_tables \<Rightarrow> EncryptionKey \<Rightarrow> string" where
  "EncryptionKey_ToBase32 U k = ToBase32 U encKeyVersionByte k"

definition SecretKey_ToBase32 :: "unicode_tables \<Rightarrow> SecretKey \<Rightarrow> string" where
  "SecretKey_ToBase32 U s = ToBase32 U secKeyVersionByte s"

section \<open>Collaborators of the database\<close>

text \<open>
  The database calls into libraries that are not part of this package. They are the
  parameter \<open>L\<close> of every operation below. A failure of such a call is an error value
  of the library, given by its message; it is no member of a class declared here.
  \<^item> \<^verbatim>\<open>access2.ParseAccess\<close>, of which the database reads the satellite address and the
    head of the API key;
  \<^item> \<^verbatim>\<open>storj.ParseNodeURL\<close>, giving a node ID and an address;
  \<^item> \<^verbatim>\<open>encryption.Encrypt\<close> and \<^verbatim>\<open>encryption.Decrypt\<close> with cipher suite, \<^verbatim>\<open>storj.Key\<close>
    (\<^verbatim>\<open>[32]byte\<close>) and \<^verbatim>\<open>storj.Nonce\<close> (\<^verbatim>\<open>[24]byte\<close>);
  \<^item> \<^verbatim>\<open>sha256.Sum256\<close>.
\<close>

record Access =
  access_SatelliteAddress :: string
  APIKey_Head :: "byte list"

record NodeURL =
  ID :: "byte list"
  Address :: string

datatype CipherSuite = EncUnspecified | EncNull | EncAESGCM | EncSecretBox | EncNullBase64URL

record libs =
  ParseAccess :: "string \<Rightarrow> string + Access"
  ParseNodeURL :: "string \<Rightarrow> string + NodeURL"
  Encrypt :: "byte list \<Rightarrow> CipherSuite \<Rightarrow> byte list \<Rightarrow> byte list \<Rightarrow> string + byte list"
  Decrypt :: "byte list \<Rightarrow> CipherSuite \<Rightarrow> byte list \<Rightarrow> byte list \<Rightarrow> string + byte list"
  Sum256 :: "byte list \<Rightarrow> byte list"

text \<open>
  The composite literals \<^verbatim>\<open>storj.Nonce{}\<close> and \<^verbatim>\<open>storj.Nonce{1}\<close>: the listed elements, then
  zeros up to 24 bytes. For AES-GCM the encryption library uses the first
  \<^verbatim>\<open>AESGCMNonceSize\<close> = 12 bytes of a \<^verbatim>\<open>storj.Nonce\<close> (\<^verbatim>\<open>encryption.ToAESGCMNonce\<close>).
\<close>

definition Nonce :: "byte list \<Rightarrow> byte list" where
  "Nonce init = init @ replicate (24 - length init) 0"

definition ToAESGCMNonce :: "byte list \<Rightarrow> byte list" where
  "ToAESGCMNonce nonce = copy (replicate 12 0) (take 12 nonce)"

text \<open>The stored value; \<^verbatim>\<open>Put\<close> below fills these five fields.\<close>

record Record =
  SatelliteAddress :: string
  MacaroonHead :: "byte list"
  EncryptedSecretKey :: "byte list"
  EncryptedAccessGrant :: "byte list"
  Public :: bool

text \<open>
  The interface \<^verbatim>\<open>KV\<close>, over a backend state \<^typ>\<open>'s\<close>. Every method returns its results
  and the state it leaves. \<^verbatim>\<open>Get\<close> returns a record pointer (\<open>None\<close> for \<^verbatim>\<open>nil\<close>) and an
  error.
\<close>

record 's KV =
  kv_Put :: "KeyHash \<Rightarrow> Record \<Rightarrow> 's \<Rightarrow> error option \<times> 's"
  kv_Get :: "KeyHash \<Rightarrow> 's \<Rightarrow> (Record option \<times> error option) \<times> 's"
  kv_Delete :: "KeyHash \<Rightarrow> 's \<Rightarrow> error option \<times> 's"
  kv_Invalidate :: "KeyHash \<Rightarrow> string \<Rightarrow> 's \<Rightarrow> error option \<times> 's"
  kv_Ping :: "'s \<Rightarrow> error option \<times> 's"

section \<open>Database\<close>

record 's Database =
  kv :: "'s KV"
  allowedSatelliteAddresses :: "string \<rightharpoonup> unit"

definition NewDatabase :: "'s KV \<Rightarrow> string list \<Rightarrow> 's Database" where
  "NewDatabase K allowed =
     (let m = fold (\<lambda>sat m. m(sat \<mapsto> ())) allowed Map.empty
      in \<lparr>kv = K, allowedSatelliteAddresses = m\<rparr>)"

text \<open>\<^verbatim>\<open>RemoveNodeIDs\<close>: the loop, with \<open>p\<close> the slice built so far.\<close>

fun RemoveNodeIDs_loop :: "libs \<Rightarrow> string list \<Rightarrow> string list \<Rightarrow> error + string list" where
  "RemoveNodeIDs_loop L p [] = Inr p"
| "RemoveNodeIDs_loop L p (s # ss) =
     (case ParseNodeURL L s of
        Inl err \<Rightarrow> Inl (External err)
      | Inr url \<Rightarrow> RemoveNodeIDs_loop L (p @ [Address url]) ss)"

definition RemoveNodeIDs :: "libs \<Rightarrow> string list \<Rightarrow> error + string list" where
  "RemoveNodeIDs L ss = RemoveNodeIDs_loop L [] ss"

definition Hash :: "libs \<Rightarrow> EncryptionKey \<Rightarrow> KeyHash" where
  "Hash L k = Sum256 L k"

definition ToStorjKey :: "EncryptionKey \<Rightarrow> byte list" where
  "ToStorjKey k = (let storjKey = replicate 32 0 in copy storjKey k)"

definition disallowed_satellite :: "string \<Rightarrow> error" where
  "disallowed_satellite satelliteAddr =
     errs_New (''access grant contains disallowed satellite '' @ [CHR 0x27] @ ''%s'' @ [CHR 0x27])
       [ArgStr satelliteAddr]"

text \<open>
  \<^verbatim>\<open>Database.Put\<close>. \<open>rnd\<close> is what \<^verbatim>\<open>rand.Read(secretKey[:])\<close> does in this call: the bytes
  it writes into the buffer and its error. The monitoring task and the context are
  left out.
\<close>

definition Put ::
  "libs \<Rightarrow> 's Database \<Rightarrow> EncryptionKey \<Rightarrow> string \<Rightarrow> bool \<Rightarrow> byte list \<times> string option
     \<Rightarrow> 's \<Rightarrow> (SecretKey \<times> error option) \<times> 's" where
  "Put L db key accessGrant public rnd st =
     (let secretKey = replicate 32 0 in
      case ParseAccess L accessGrant of
        Inl err \<Rightarrow> ((secretKey, Some (External err)), st)
      | Inr access \<Rightarrow>
         (let satelliteAddr = access_SatelliteAddress access in
          case ParseNodeURL L satelliteAddr of
            Inl err \<Rightarrow> ((secretKey, Some (External err)), st)
          | Inr url \<Rightarrow>
             (if allowedSatelliteAddresses db (Address url) = None then
                ((secretKey, Some (disallowed_satellite satelliteAddr)), st)
              else
               (let secretKey = copy secretKey (fst rnd) in
                case snd rnd of
                  Some err \<Rightarrow> ((secretKey, Some (External err)), st)
                | None \<Rightarrow>
                   (let storjKey = ToStorjKey key in
                    case Encrypt L secretKey EncAESGCM storjKey (Nonce []) of
                      Inl err \<Rightarrow> ((secretKey, Some (External err)), st)
                    | Inr encryptedSecretKey \<Rightarrow>
                       (case Encrypt L (bytes_of_string accessGrant) EncAESGCM storjKey
                               (Nonce [1]) of
                          Inl err \<Rightarrow> ((secretKey, Some (External err)), st)
                        | Inr encryptedAccessGrant \<Rightarrow>
                           (let record = \<lparr>SatelliteAddress = satelliteAddr,
                                          MacaroonHead = APIKey_Head access,
                                          EncryptedSecretKey = encryptedSecretKey,
                                          EncryptedAccessGrant = encryptedAccessGrant,
                                          Public = public\<rparr> in
                            case kv_Put (kv db) (Hash L key) record st of
                              (Some err, st') \<Rightarrow> ((secretKey, Some (errs_Wrap err)), st')
                            | (None, st') \<Rightarrow> ((secretKey, None), st'))))))))"

text \<open>\<^verbatim>\<open>Database.Get\<close>, returning \<^verbatim>\<open>(accessGrant, public, secretKey, err)\<close>.\<close>

definition Get ::
  "libs \<Rightarrow> 's Database \<Rightarrow> EncryptionKey \<Rightarrow> 's
     \<Rightarrow> (string \<times> bool \<times> SecretKey \<times> error option) \<times> 's" where
  "Get L db key st =
     (let secretKey = replicate 32 0 in
      case kv_Get (kv db) (Hash L key) st of
        ((record, Some err), st') \<Rightarrow> (([], False, secretKey, Some (errs_Wrap err)), st')
      | ((None, None), st') \<Rightarrow>
          (([], False, secretKey,
            Some (Class_New NotFound ''key hash: %x'' [ArgHex (Hash L key)])), st')
      | ((Some record, None), st') \<Rightarrow>
         (let storjKey = ToStorjKey key in
          case Decrypt L (EncryptedSecretKey record) EncAESGCM storjKey (Nonce []) of
            Inl err \<Rightarrow> (([], False, secretKey, Some (errs_Wrap (External err))), st')
          | Inr sk \<Rightarrow>
             (let secretKey = copy secretKey sk in
              case Decrypt L (EncryptedAccessGrant record) EncAESGCM storjKey (Nonce [1]) of
                Inl err \<Rightarrow> (([], False, secretKey, Some (errs_Wrap (External err))), st')
              | Inr ag \<Rightarrow> ((string_of_bytes ag, Public record, secretKey, None), st'))))"

text \<open>\<^verbatim>\<open>Delete\<close>, \<^verbatim>\<open>Invalidate\<close> and \<^verbatim>\<open>Ping\<close> forward to the store; \<^verbatim>\<open>errs.Wrap(nil)\<close> is \<^verbatim>\<open>nil\<close>.\<close>

definition Delete :: "libs \<Rightarrow> 's Database \<Rightarrow> EncryptionKey \<Rightarrow> 's \<Rightarrow> error option \<times> 's" where
  "Delete L db key st =
     (case kv_Delete (kv db) (Hash L key) st of (err, st') \<Rightarrow> (map_option errs_Wrap err, st'))"

definition Invalidate ::
  "libs \<Rightarrow> 's Database \<Rightarrow> EncryptionKey \<Rightarrow> string \<Rightarrow> 's \<Rightarrow> error option \<times> 's" where
  "Invalidate L db key reason st =
     (case kv_Invalidate (kv db) (Hash L key) reason st of
        (err, st') \<Rightarrow> (map_option errs_Wrap err, st'))"

definition Ping :: "'s Database \<Rightarrow> 's \<Rightarrow> error option \<times> 's" where
  "Ping db st = (case kv_Ping (kv db) st of (err, st') \<Rightarrow> (map_option errs_Wrap err, st'))"

section \<open>The store contract and sequences of operations\<close>

text \<open>
  \<open>stored K h r s\<close>: in state \<open>s\<close> the store's \<^verbatim>\<open>Get\<close> returns record \<open>r\<close> for key hash \<open>h\<close>,
  and no error.
\<close>

definition stored :: "'s KV \<Rightarrow> KeyHash \<Rightarrow> Record \<Rightarrow> 's \<Rightarrow> bool" where
  "stored K h r s = (fst (kv_Get K h s) = (Some r, None))"

text \<open>
  Modelled from the spec: the implementations of \<^verbatim>\<open>KV\<close> and the errors they return are not
  among the sources. \<open>AlreadyExists\<close> is the kind of error with which \<^verbatim>\<open>put\<close> "must fail
  if a record already exists", \<open>Invalid\<close> the "sentinel indicating the record is
  invalidated".
\<close>

definition AlreadyExists :: Class where
  "AlreadyExists = ''already exists''"

definition Invalid :: Class where
  "Invalid = ''invalid''"

text \<open>
  Modelled from the spec: what the database needs of a store. A \<^verbatim>\<open>put\<close> that succeeds
  is read back; a \<^verbatim>\<open>put\<close> on a hash that holds a record fails with \<open>AlreadyExists\<close>; and
  a record that is held stays held, unchanged, under every call but a \<^verbatim>\<open>delete\<close> or an
  \<^verbatim>\<open>invalidate\<close> of its own hash.
\<close>

definition kv_contract :: "'s KV \<Rightarrow> bool" where
  "kv_contract K =
     ((\<forall>h r s. fst (kv_Put K h r s) = None \<longrightarrow> stored K h r (snd (kv_Put K h r s))) \<and>
      (\<forall>h r s r'. stored K h r s \<longrightarrow>
         (\<exists>e. fst (kv_Put K h r' s) = Some e \<and> Class_Has AlreadyExists e)) \<and>
      (\<forall>h r s h' r'. stored K h r s \<longrightarrow> stored K h r (snd (kv_Put K h' r' s))) \<and>
      (\<forall>h r s h'. stored K h r s \<longrightarrow> stored K h r (snd (kv_Get K h' s))) \<and>
      (\<forall>h r s h'. stored K h r s \<longrightarrow> h' \<noteq> h \<longrightarrow> stored K h r (snd (kv_Delete K h' s))) \<and>
      (\<forall>h r s h' reason. stored K h r s \<longrightarrow> h' \<noteq> h \<longrightarrow>
         stored K h r (snd (kv_Invalidate K h' reason s))) \<and>
      (\<forall>h r s. stored K h r s \<longrightarrow> stored K h r (snd (kv_Ping K s))))"

text \<open>What the database needs of the cipher: decryption undoes encryption.\<close>

definition aead_correct :: "libs \<Rightarrow> bool" where
  "aead_correct L =
     (\<forall>data key nonce ct. Encrypt L data EncAESGCM key nonce = Inr ct \<longrightarrow>
        Decrypt L ct EncAESGCM key nonce = Inr data)"


text \<open>A call of one of the five operations, and the state a sequence of calls leaves.\<close>

datatype dbop =
    OpPut EncryptionKey string bool "byte list \<times> string option"
  | OpGet EncryptionKey
  | OpDelete EncryptionKey
  | OpInvalidate EncryptionKey string
  | OpPing

fun apply_op :: "libs \<Rightarrow> 's Database \<Rightarrow> dbop \<Rightarrow> 's \<Rightarrow> 's" where
  "apply_op L db (OpPut k g p rnd) st = snd (Put L db k g p rnd st)"
| "apply_op L db (OpGet k) st = snd (Get L db k st)"
| "apply_op L db (OpDelete k) st = snd (Delete L db k st)"
| "apply_op L db (OpInvalidate k reason) st = snd (Invalidate L db k reason st)"
| "apply_op L db OpPing st = snd (Ping db st)"

text \<open>\<open>removes L h op\<close>: the call is a \<^verbatim>\<open>Delete\<close> or an \<^verbatim>\<open>Invalidate\<close> of a key with hash \<open>h\<close>.\<close>

fun removes :: "libs \<Rightarrow> KeyHash \<Rightarrow> dbop \<Rightarrow> bool" where
  "removes L h (OpDelete k) = (Hash L k = h)"
| "removes L h (OpInvalidate k reason) = (Hash L k = h)"
| "removes L h _ = False"

section \<open>A store in memory\<close>

text \<open>
  Modelled from the spec: a store that follows section 4.5, a map from key hash to the
  record and its invalidation reason (empty while the record is valid). \<^verbatim>\<open>get\<close> of an
  invalidated record returns the sentinel and not the record.
\<close>

type_synonym mem = "KeyHash \<rightharpoonup> Record \<times> string"

definition mem_Put :: "KeyHash \<Rightarrow> Record \<Rightarrow> mem \<Rightarrow> error option \<times> mem" where
  "mem_Put h r s =
     (case s h of
        Some _ \<Rightarrow> (Some (Class_New AlreadyExists ''record already exists'' []), s)
      | None \<Rightarrow> (None, s(h \<mapsto> (r, []))))"

definition mem_Get :: "KeyHash \<Rightarrow> mem \<Rightarrow> (Record option \<times> error option) \<times> mem" where
  "mem_Get h s =
     (case s h of
        None \<Rightarrow> ((None, None), s)
      | Some (r, reason) \<Rightarrow>
          if reason \<noteq> [] then ((None, Some (Class_New Invalid ''%s'' [ArgStr reason])), s)
          else ((Some r, None), s))"

definition mem_Delete :: "KeyHash \<Rightarrow> mem \<Rightarrow> error option \<times> mem" where
  "mem_Delete h s = (None, s(h := None))"

definition mem_Invalidate :: "KeyHash \<Rightarrow> string \<Rightarrow> mem \<Rightarrow> error option \<times> mem" where
  "mem_Invalidate h reason s =
     (case s h of
        None \<Rightarrow> (None, s)
      | Some (r, old) \<Rightarrow> (None, s(h \<mapsto> (r, reason))))"

definition mem_Ping :: "mem \<Rightarrow> error option \<times> mem" where
  "mem_Ping s = (None, s)"

definition mem_KV :: "mem KV" where
  "mem_KV = \<lparr>kv_Put = mem_Put, kv_Get = mem_Get, kv_Delete = mem_Delete,
             kv_Invalidate = mem_Invalidate, kv_Ping = mem_Ping\<rparr>"

section \<open>A small instance\<close>

text \<open>
  Stand-ins for the collaborators, on which the operations can be run: no Unicode
  tables; a grant that is its own satellite address; a node URL split at the \<open>@\<close>; a
  cipher that prefixes key and nonce to the plaintext and checks them on decryption;
  the identity as hash.
\<close>

definition ascii_tables :: unicode_tables where
  "ascii_tables = \<lparr>map_ToUpper = (\<lambda>s. s), map_ToLower = (\<lambda>s. s)\<rparr>"

definition demo_ParseAccess :: "string \<Rightarrow> string + Access" where
  "demo_ParseAccess g =
     (if g = [] then Inl ''invalid access grant format''
      else Inr \<lparr>access_SatelliteAddress = g, APIKey_Head = []\<rparr>)"

definition demo_ParseNodeURL :: "string \<Rightarrow> string + NodeURL" where
  "demo_ParseNodeURL s =
     (case dropWhile (\<lambda>c. c \<noteq> CHR ''@'') s of
        [] \<Rightarrow> Inr \<lparr>ID = [], Address = s\<rparr>
      | _ # addr \<Rightarrow>
          Inr \<lparr>ID = bytes_of_string (takeWhile (\<lambda>c. c \<noteq> CHR ''@'') s), Address = addr\<rparr>)"

definition demo_Encrypt ::
  "byte list \<Rightarrow> CipherSuite \<Rightarrow> byte list \<Rightarrow> byte list \<Rightarrow> string + byte list" where
  "demo_Encrypt data cipher key nonce = Inr (key @ nonce @ data)"

definition demo_Decrypt ::
  "byte list \<Rightarrow> CipherSuite \<Rightarrow> byte list \<Rightarrow> byte list \<Rightarrow> string + byte list" where
  "demo_Decrypt ct cipher key nonce =
     (if take (length key + length nonce) ct = key @ nonce
      then Inr (drop (length key + length nonce) ct)
      else Inl ''cipher: message authentication failed'')"

definition demo_libs :: libs where
  "demo_libs = \<lparr>ParseAccess = demo_ParseAccess, ParseNodeURL = demo_ParseNodeURL,
                Encrypt = demo_Encrypt, Decrypt = demo_Decrypt, Sum256 = (\<lambda>k. k)\<rparr>"

definition demo_db :: "mem Database" where
  "demo_db = NewDatabase mem_KV [''sat1.example:7777'']"

definition demo_key :: EncryptionKey where
  "demo_key = [1, 2, 3, 4, 5, 6, 7, 8, 9, 10, 11, 12, 13, 14, 15, 16]"

definition demo_rnd :: "byte list \<times> string option" where
  "demo_rnd = (replicate 32 7, None)"

section \<open>Canonical encodings\<close>

text \<open>
  The strings that \<open>ToBase32\<close> can produce for a key of 16 bytes are among these: 28
  characters of the lower-case alphabet, and a last character whose four low bits,
  which lie beyond the 17th byte, are zero.
\<close>

definition lowerAlphabet :: string where
  "lowerAlphabet = ''abcdefghijklmnopqrstuvwxyz234567''"

definition canonical :: "string \<Rightarrow> bool" where
  "canonical x = (length x = 28 \<and> set x \<subseteq> set lowerAlphabet
                  \<and> (last x = CHR ''a'' \<or> last x = CHR ''q''))"

section \<open>Proof devices for the codec\<close>

text \<open>The eight masked groups that \<^verbatim>\<open>Encode\<close> looks up in the alphabet for one quantum.\<close>

definition groups :: "byte list \<Rightarrow> byte list" where
  "groups src = map (\<lambda>i. unpack src ! i AND 31) [0..<8]"

text \<open>The 5-bit value that the decoder reads from a character of the input.\<close>

definition char_value :: "char \<Rightarrow> byte" where
  "char_value c = decodeMap (byte_of_char (upper_byte c))"

section \<open>Put and Get with the cipher calls as arguments\<close>

text \<open>
  \<^verbatim>\<open>Database.Put\<close> and \<^verbatim>\<open>Database.Get\<close> a second time, with their calls of
  \<^verbatim>\<open>encryption.Encrypt\<close> and \<^verbatim>\<open>encryption.Decrypt\<close> replaced by arguments: \<open>encSecret\<close>
  and \<open>decSecret\<close> stand for the call on the secret key, \<open>encGrant\<close> and \<open>decGrant\<close> for the
  call on the access grant. They are what \<open>Put\<close> and \<open>Get\<close> are compared with, to say
  which key and which nonce each call is made with. \<open>seal_and_store\<close> is \<^verbatim>\<open>Put\<close> after the
  allow-list check: the secret key from the random source, the two ciphertexts, the
  record, the write to the store under the key hash.
\<close>

definition seal_and_store ::
  "(byte list \<Rightarrow> string + byte list) \<Rightarrow> (byte list \<Rightarrow> string + byte list) \<Rightarrow> 's KV \<Rightarrow> KeyHash
     \<Rightarrow> Access \<Rightarrow> string \<Rightarrow> bool \<Rightarrow> byte list \<times> string option \<Rightarrow> 's
     \<Rightarrow> (SecretKey \<times> error option) \<times> 's" where
  "seal_and_store encSecret encGrant K h access accessGrant public rnd st =
     (case snd rnd of
        Some err \<Rightarrow> ((copy (replicate 32 0) (fst rnd), Some (External err)), st)
      | None \<Rightarrow>
         (case encSecret (copy (replicate 32 0) (fst rnd)) of
            Inl err \<Rightarrow> ((copy (replicate 32 0) (fst rnd), Some (External err)), st)
          | Inr esk \<Rightarrow>
             (case encGrant (bytes_of_string accessGrant) of
                Inl err \<Rightarrow> ((copy (replicate 32 0) (fst rnd), Some (External err)), st)
              | Inr eag \<Rightarrow>
                 (case kv_Put K h
                         \<lparr>SatelliteAddress = access_SatelliteAddress access,
                          MacaroonHead = APIKey_Head access,
                          EncryptedSecretKey = esk,
                          EncryptedAccessGrant = eag,
                          Public = public\<rparr> st of
                    (Some err, st') \<Rightarrow> ((copy (replicate 32 0) (fst rnd), Some (errs_Wrap err)), st')
                  | (None, st') \<Rightarrow> ((copy (replicate 32 0) (fst rnd), None), st')))))"

definition Put_steps ::
  "(byte list \<Rightarrow> string + byte list) \<Rightarrow> (byte list \<Rightarrow> string + byte list) \<Rightarrow> libs \<Rightarrow> 's Database
     \<Rightarrow> EncryptionKey \<Rightarrow> string \<Rightarrow> bool \<Rightarrow> byte list \<times> string option \<Rightarrow> 's
     \<Rightarrow> (SecretKey \<times> error option) \<times> 's" where
  "Put_steps encSecret encGrant L db key accessGrant public rnd st =
     (case ParseAccess L accessGrant of
        Inl err \<Rightarrow> ((replicate 32 0, Some (External err)), st)
      | Inr access \<Rightarrow>
         (case ParseNodeURL L (access_SatelliteAddress access) of
            Inl err \<Rightarrow> ((replicate 32 0, Some (External err)), st)
          | Inr url \<Rightarrow>
             (if allowedSatelliteAddresses db (Address url) = None then
                ((replicate 32 0,
                  Some (disallowed_satellite (access_SatelliteAddress access))), st)
              else seal_and_store encSecret encGrant (kv db) (Hash L key) access accessGrant
                     public rnd st)))"

text \<open>\<^verbatim>\<open>Get\<close> after the lookup, on the record the store returned.\<close>

definition open_record ::
  "(byte list \<Rightarrow> string + byte list) \<Rightarrow> (byte list \<Rightarrow> string + byte list) \<Rightarrow> Record \<Rightarrow> 's
     \<Rightarrow> (string \<times> bool \<times> SecretKey \<times> error option) \<times> 's" where
  "open_record decSecret decGrant record st =
     (case decSecret (EncryptedSecretKey record) of
        Inl err \<Rightarrow> (([], False, replicate 32 0, Some (External err)), st)
      | Inr sk \<Rightarrow>
         (case decGrant (EncryptedAccessGrant record) of
            Inl err \<Rightarrow> (([], False, copy (replicate 32 0) sk, Some (External err)), st)
          | Inr ag \<Rightarrow> ((string_of_bytes ag, Public record, copy (replicate 32 0) sk, None), st)))"

definition Get_steps ::
  "(byte list \<Rightarrow> string + byte list) \<Rightarrow> (byte list \<Rightarrow> string + byte list) \<Rightarrow> libs \<Rightarrow> 's Database
     \<Rightarrow> EncryptionKey \<Rightarrow> 's \<Rightarrow> (string \<times> bool \<times> SecretKey \<times> error option) \<times> 's" where
  "Get_steps decSecret decGrant L db key st =
     (case kv_Get (kv db) (Hash L key) st of
        ((record, Some err), st') \<Rightarrow> (([], False, replicate 32 0, Some (errs_Wrap err)), st')
      | ((None, None), st') \<Rightarrow>
          (([], False, replicate 32 0,
            Some (Class_New NotFound ''key hash: %x'' [ArgHex (Hash L key)])), st')
      | ((Some record, None), st') \<Rightarrow> open_record decSecret decGrant record st')"

text \<open>
  \<open>aesgcm_library L E D\<close>: for the suite \<^verbatim>\<open>EncAESGCM\<close> the encryption library hands the data
  and the key to its AES-GCM functions \<open>E\<close> and \<open>D\<close>, with the nonce \<open>ToAESGCMNonce\<close> makes
  of the \<^verbatim>\<open>storj.Nonce\<close>.
\<close>

definition aesgcm_library ::
  "libs \<Rightarrow> (byte list \<Rightarrow> byte list \<Rightarrow> byte list \<Rightarrow> string + byte list)
     \<Rightarrow> (byte list \<Rightarrow> byte list \<Rightarrow> byte list \<Rightarrow> string + byte list) \<Rightarrow> bool" where
  "aesgcm_library L E D =
     (\<forall>data key nonce.
        Encrypt L data EncAESGCM key nonce = E data key (ToAESGCMNonce nonce) \<and>
        Decrypt L data EncAESGCM key nonce = D data key (ToAESGCMNonce nonce))"

text \<open>
  Modelled from the spec: \<open>Corrupt\<close> is the kind of error that section 7 gives to a failed
  AEAD authentication; the sources declare the class \<open>NotFound\<close> only.
\<close>

definition Corrupt :: Class where
  "Corrupt = ''corrupt''"

section \<open>Further instances\<close>

text \<open>
  A cipher stand-in that the library calls with the 12-byte nonce, and a node URL
  parser that refuses a node ID with a character outside the base58 alphabet.
\<close>

definition gcm_seal :: "byte list \<Rightarrow> byte list \<Rightarrow> byte list \<Rightarrow> string + byte list" where
  "gcm_seal data key nonce = Inr (key @ nonce @ data)"

definition gcm_open :: "byte list \<Rightarrow> byte list \<Rightarrow> byte list \<Rightarrow> string + byte list" where
  "gcm_open ct key nonce =
     (if take (length key + length nonce) ct = key @ nonce
      then Inr (drop (length key + length nonce) ct)
      else Inl ''cipher: message authentication failed'')"

definition gcm_libs :: libs where
  "gcm_libs = \<lparr>ParseAccess = demo_ParseAccess, ParseNodeURL = demo_ParseNodeURL,
               Encrypt = (\<lambda>data cipher key nonce. gcm_seal data key (ToAESGCMNonce nonce)),
               Decrypt = (\<lambda>ct cipher key nonce. gcm_open ct key (ToAESGCMNonce nonce)),
               Sum256 = (\<lambda>k. k)\<rparr>"

definition base58 :: string where
  "base58 = ''123456789ABCDEFGHJKLMNPQRSTUVWXYZabcdefghijkmnopqrstuvwxyz''"

definition strict_ParseNodeURL :: "string \<Rightarrow> string + NodeURL" where
  "strict_ParseNodeURL s =
     (case dropWhile (\<lambda>c. c \<noteq> CHR ''@'') s of
        [] \<Rightarrow> Inr \<lparr>ID = [], Address = s\<rparr>
      | _ # addr \<Rightarrow>
          if list_all (\<lambda>c. c \<in> set base58) (takeWhile (\<lambda>c. c \<noteq> CHR ''@'') s)
          then Inr \<lparr>ID = bytes_of_string (takeWhile (\<lambda>c. c \<noteq> CHR ''@'') s), Address = addr\<rparr>
          else Inl ''node URL error: invalid node ID'')"

definition strict_libs :: libs where
  "strict_libs = \<lparr>ParseAccess = demo_ParseAccess, ParseNodeURL = strict_ParseNodeURL,
                  Encrypt = demo_Encrypt, Decrypt = demo_Decrypt, Sum256 = (\<lambda>k. k)\<rparr>"

section \<open>Base32: decoding undoes encoding\<close>

lemma and_1F: "(x :: byte) AND 0x1F = take_bit 5 x"
proof -
  have "(0x1F :: byte) = mask 5" by (simp add: mask_eq_exp_minus_1)
  then show ?thesis by (simp add: take_bit_eq_mask)
qed

lemma byte_eqI:
  fixes x y :: byte
  assumes "bit x 0 = bit y 0" "bit x 1 = bit y 1" "bit x 2 = bit y 2" "bit x 3 = bit y 3"
    "bit x 4 = bit y 4" "bit x 5 = bit y 5" "bit x 6 = bit y 6" "bit x 7 = bit y 7"
  shows "x = y"
proof (rule bit_word_eqI)
  fix n assume "n < LENGTH(8)"
  then have "n < 8" by simp
  then consider "n = 0" | "n = 1" | "n = 2" | "n = 3" | "n = 4" | "n = 5" | "n = 6" | "n = 7"
    by linarith
  then show "bit x n = bit y n" using assms by cases simp_all
qed

lemma byte_bit_hi: "8 \<le> n \<Longrightarrow> bit (b::byte) n = False"
  by (auto dest: bit_imp_le_length)

lemma bit_times2: "bit ((x::byte) * 2) n = (0 < n \<and> n < 8 \<and> bit x (n - 1))"
proof -
  have "x * 2 = push_bit 1 x" by simp
  then show ?thesis by (simp only: bit_push_bit_iff) (auto simp: bit_simps dest: bit_imp_le_length)
qed

lemma Suc_nums: "Suc (Suc 0) = 2" "Suc (Suc (Suc 0)) = 3"
  by simp_all

lemma replicate8: "replicate 8 x = [x, x, x, x, x, x, x, x]"
  by (simp add: numeral_eq_Suc)

lemma upt8: "[0..<8] = [0, 1, 2, 3, 4, 5, 6, 7]"
  by (simp add: upt_rec)

lemma pack_groups5: "pack 8 (groups (a # b # c # d # e # rest)) = [a, b, c, d, e]"
  apply (simp add: groups_def pack_def unpack_def Let_def replicate8 upt8 and_1F)
  apply (intro conjI; rule byte_eqI; simp add: bit_simps byte_bit_hi bit_times2 Suc_nums)
  done

lemma pack_groups4: "pack 7 (groups [a, b, c, d]) = [a, b, c, d]"
  apply (simp add: groups_def pack_def unpack_def Let_def replicate8 upt8 and_1F)
  apply (intro conjI; rule byte_eqI; simp add: bit_simps byte_bit_hi bit_times2 Suc_nums)
  done

lemma pack_groups3: "pack 5 (groups [a, b, c]) = [a, b, c]"
  apply (simp add: groups_def pack_def unpack_def Let_def replicate8 upt8 and_1F)
  apply (intro conjI; rule byte_eqI; simp add: bit_simps byte_bit_hi bit_times2 Suc_nums)
  done

lemma pack_groups2: "pack 4 (groups [a, b]) = [a, b]"
  apply (simp add: groups_def pack_def unpack_def Let_def replicate8 upt8 and_1F)
  apply (intro conjI; rule byte_eqI; simp add: bit_simps byte_bit_hi bit_times2 Suc_nums)
  done

lemma pack_groups1: "pack 2 (groups [a]) = [a]"
  apply (simp add: groups_def pack_def unpack_def Let_def replicate8 upt8 and_1F)
  apply (rule byte_eqI; simp add: bit_simps byte_bit_hi bit_times2 Suc_nums)
  done

lemma alphabet_bytes:
  "bytes_of_string encodeStd = map of_nat ([65..<91] @ [50..<56])"
  by (simp add: encodeStd_def bytes_of_string_def byte_of_char_def upt_rec)

lemma byte_less32_cases:
  "(v::byte) < 32 \<Longrightarrow> v \<in> set (map of_nat [0..<32])"
proof -
  assume "v < 32"
  then have "unat v < 32" by (simp add: word_less_nat_alt)
  then have "unat v \<in> set [0..<32]" by simp
  then have "of_nat (unat v) \<in> (of_nat ` set [0..<32] :: byte set)"
    by (rule imageI)
  moreover have "(of_nat (unat v) :: byte) = v" by simp
  ultimately show ?thesis by (simp only: set_map)
qed

lemma encode_tab_all:
  "\<forall>v \<in> set (map of_nat [0..<32] :: byte list).
     decodeMap (encode_tab v) = v \<and> encode_tab v \<noteq> 0xFF \<and> encode_tab v \<noteq> 10 \<and> encode_tab v \<noteq> 13
     \<and> encode_tab v \<in> set (bytes_of_string encodeStd)"
  unfolding alphabet_bytes decodeMap_def
  by (simp add: encode_tab_def encodeStd_def byte_of_char_def upt_rec)

lemma take_bit5_less32: "take_bit 5 (x::byte) < 32"
proof -
  have "unat (take_bit 5 x) = take_bit 5 (unat x)" by (simp add: unsigned_take_bit_eq)
  moreover have "take_bit 5 (unat x) < 2 ^ 5" by (rule take_bit_nat_less_exp)
  ultimately show ?thesis by (simp add: word_less_nat_alt)
qed

lemma encode_tab_facts:
  assumes "(v::byte) < 32"
  shows "decodeMap (encode_tab v) = v" "encode_tab v \<noteq> 0xFF" "encode_tab v \<noteq> 10"
    "encode_tab v \<noteq> 13" "encode_tab v \<in> set (bytes_of_string encodeStd)"
  using encode_tab_all byte_less32_cases [OF assms] by blast+

lemma readQuantum_groups:
  "\<forall>v \<in> set vs. v < 32 \<Longrightarrow> j + length vs \<le> 8 \<Longrightarrow> length dbuf = 8 \<Longrightarrow>
   (j + length vs < 8 \<longrightarrow> tail = []) \<Longrightarrow>
   readQuantum olen j dbuf (map encode_tab vs @ tail) =
     Quantum (j + length vs) (take j dbuf @ vs @ drop (j + length vs) dbuf)
       (j + length vs < 8) tail"
proof (induction vs arbitrary: j dbuf)
  case Nil
  then show ?case by (cases "j < 8") (simp_all add: readQuantum.simps)
next
  case (Cons v vs)
  then have v: "v < 32" and j: "j < 8" by simp_all
  have nopad: "encode_tab v \<noteq> padByte" using encode_tab_facts(2) [OF v] by (simp add: padByte_def)
  have dec: "decodeMap (encode_tab v) = v" by (rule encode_tab_facts(1) [OF v])
  have v255: "v \<noteq> 0xFF" using v by auto
  have step: "readQuantum olen j dbuf (map encode_tab (v # vs) @ tail) =
      readQuantum olen (j + 1) (dbuf[j := v]) (map encode_tab vs @ tail)"
    using j nopad dec v255 by (subst readQuantum.simps) simp
  have "readQuantum olen (j + 1) (dbuf[j := v]) (map encode_tab vs @ tail) =
      Quantum (j + 1 + length vs)
        (take (j + 1) (dbuf[j := v]) @ vs @ drop (j + 1 + length vs) (dbuf[j := v]))
        (j + 1 + length vs < 8) tail"
    using Cons.prems by (intro Cons.IH) simp_all
  moreover have "take (j + 1) (dbuf[j := v]) = take j dbuf @ [v]"
    using j Cons.prems(3) by (simp add: take_Suc_conv_app_nth)
  moreover have "drop (j + 1 + length vs) (dbuf[j := v]) = drop (j + 1 + length vs) dbuf"
    by simp
  ultimately show ?case using step by simp
qed

lemma groups_less32: "\<forall>v \<in> set (groups src). v < 32"
  by (simp add: groups_def and_1F [simplified] take_bit5_less32)

lemma length_groups: "length (groups src) = 8"
  by (simp add: groups_def)

lemma Encode_out:
  "m \<le> 8 \<Longrightarrow> map (\<lambda>i. encode_tab (unpack src ! i AND 31)) [0..<m] = map encode_tab (take m (groups src))"
  by (simp add: groups_def take_map)

lemma Encode_short:
  "src \<noteq> [] \<Longrightarrow> length src < 5 \<Longrightarrow>
   Encode n src = map encode_tab (take (min n 8) (groups src))"
  by (subst Encode.simps) (simp add: Let_def Encode_out)

lemma Encode_long:
  "5 \<le> length src \<Longrightarrow>
   Encode n src = map encode_tab (take (min n 8) (groups src)) @ Encode (n - 8) (drop 5 src)"
  by (subst Encode.simps) (auto simp add: Let_def Encode_out)

lemma groups_tail_zero:
  "groups [a] = take 2 (groups [a]) @ replicate 6 0"
  "groups [a, b] = take 4 (groups [a, b]) @ replicate 4 0"
  "groups [a, b, c] = take 5 (groups [a, b, c]) @ replicate 3 0"
  "groups [a, b, c, d] = take 7 (groups [a, b, c, d]) @ replicate 1 0"
  by (simp_all add: groups_def unpack_def Let_def replicate8 upt8 numeral_eq_Suc)

lemma decode_partial:
  assumes "m < 8" "0 < m" "groups src = take m (groups src) @ replicate (8 - m) 0"
  shows "decode olen (map encode_tab (take m (groups src))) = Inr (pack m (groups src))"
proof -
  let ?vs = "take m (groups src)"
  have len: "length ?vs = m" using assms(1) by (simp add: length_groups)
  have lt: "\<forall>v \<in> set ?vs. v < 32" using groups_less32 [of src] by (auto dest: in_set_takeD)
  have "readQuantum olen 0 (replicate 8 0) (map encode_tab ?vs @ []) =
      Quantum (0 + length ?vs) (take 0 (replicate 8 0) @ ?vs @ drop (0 + length ?vs) (replicate 8 0))
        (0 + length ?vs < 8) []"
    using lt assms(1) len by (intro readQuantum_groups) simp_all
  then have rq: "readQuantum olen 0 (replicate 8 0) (map encode_tab ?vs) =
      Quantum m (groups src) True []"
    using len assms by simp
  have ne: "map encode_tab ?vs \<noteq> []" using len assms(2) by auto
  show ?thesis using ne rq by (subst decode.simps) simp
qed

lemma decode_full:
  assumes "5 \<le> length src"
  shows "decode olen (map encode_tab (groups src) @ tail) =
     (case decode olen tail of Inl e \<Rightarrow> Inl e | Inr ys \<Rightarrow> Inr (pack 8 (groups src) @ ys))"
proof -
  have "readQuantum olen 0 (replicate 8 0) (map encode_tab (groups src) @ tail) =
      Quantum (0 + length (groups src))
        (take 0 (replicate 8 0) @ groups src @ drop (0 + length (groups src)) (replicate 8 0))
        (0 + length (groups src) < 8) tail"
    using groups_less32 [of src] by (intro readQuantum_groups) (simp_all add: length_groups)
  then have rq: "readQuantum olen 0 (replicate 8 0) (map encode_tab (groups src) @ tail) =
      Quantum 8 (groups src) False tail"
    by (simp add: length_groups)
  have ne: "groups src \<noteq> []" using length_groups [of src] by auto
  show ?thesis using ne rq by (subst decode.simps) simp
qed

lemma EncodedLen_step: "EncodedLen (5 + n) = 8 + EncodedLen n"
  by (simp add: EncodedLen_def)

lemma EncodedLen_small:
  "EncodedLen (Suc 0) = 2" "EncodedLen (Suc (Suc 0)) = 4" "EncodedLen (Suc (Suc (Suc 0))) = 5"
  "EncodedLen (Suc (Suc (Suc (Suc 0)))) = 7"
  by (simp_all add: EncodedLen_def)

lemma decode_Encode: "decode olen (Encode (EncodedLen (length src)) src) = Inr src"
proof (induction "length src" arbitrary: src rule: less_induct)
  case less
  consider "src = []" | a where "src = [a]" | a b where "src = [a, b]"
    | a b c where "src = [a, b, c]" | a b c d where "src = [a, b, c, d]"
    | a b c d e rest where "src = a # b # c # d # e # rest"
    by (cases src rule: list.exhaust; simp; (cases "tl src"; simp; (cases "tl (tl src)"; simp;
        (cases "tl (tl (tl src))"; simp; (cases "tl (tl (tl (tl src)))"; simp)))))
  then show ?case
  proof cases
    case 1
    then show ?thesis by (simp add: Encode.simps decode.simps)
  next
    case 2
    then show ?thesis
      using decode_partial [of 2 src olen] groups_tail_zero(1) [of a]
      by (simp add: Encode_short EncodedLen_small pack_groups1)
  next
    case 3
    then show ?thesis
      using decode_partial [of 4 src olen] groups_tail_zero(2) [of a b]
      by (simp add: Encode_short EncodedLen_small pack_groups2)
  next
    case 4
    then show ?thesis
      using decode_partial [of 5 src olen] groups_tail_zero(3) [of a b c]
      by (simp add: Encode_short EncodedLen_small pack_groups3)
  next
    case 5
    then show ?thesis
      using decode_partial [of 7 src olen] groups_tail_zero(4) [of a b c d]
      by (simp add: Encode_short EncodedLen_small pack_groups4)
  next
    case 6
    have len: "length src = 5 + length rest" using 6 by simp
    have IH: "decode olen (Encode (EncodedLen (length rest)) rest) = Inr rest"
      using less [of rest] len by simp
    have el: "EncodedLen (length src) = 8 + EncodedLen (length rest)"
      unfolding len by (rule EncodedLen_step)
    have "Encode (8 + EncodedLen (length rest)) src =
        map encode_tab (take (min (8 + EncodedLen (length rest)) 8) (groups src))
        @ Encode (8 + EncodedLen (length rest) - 8) (drop 5 src)"
      using len by (intro Encode_long) simp
    then have "Encode (EncodedLen (length src)) src =
        map encode_tab (groups src) @ Encode (EncodedLen (length rest)) rest"
      using 6 el by (simp add: length_groups)
    then show ?thesis
      using decode_full [of src olen "Encode (EncodedLen (length rest)) rest"] IH 6
      by (simp add: pack_groups5)
  qed
qed

lemma alphabet_chars:
  "\<forall>c \<in> set (bytes_of_string encodeStd).
     (of_char (char_of_byte c) :: nat) < 128 \<and> (of_char (lower_byte (char_of_byte c)) :: nat) < 128
     \<and> upper_byte (lower_byte (char_of_byte c)) = char_of_byte c \<and> c \<noteq> 10 \<and> c \<noteq> 13"
  unfolding alphabet_bytes
  by (simp add: char_of_byte_def lower_byte_def upper_byte_def upt_rec)

lemma byte_of_char_of_byte: "byte_of_char (char_of_byte c) = c"
proof -
  have "unat c < 256" using unsigned_less [of c, where 'a = nat] by simp
  then show ?thesis by (simp add: byte_of_char_def char_of_byte_def)
qed

lemma char_of_byte_of_char: "char_of_byte (byte_of_char c) = c"
  by (simp add: byte_of_char_def char_of_byte_def unat_of_nat)

lemma bytes_of_string_of_bytes: "bytes_of_string (string_of_bytes bs) = bs"
  by (simp add: bytes_of_string_def string_of_bytes_def byte_of_char_of_byte map_idI)

lemma string_of_bytes_of_string: "string_of_bytes (bytes_of_string s) = s"
  by (simp add: bytes_of_string_def string_of_bytes_def char_of_byte_of_char map_idI)

lemma set_Encode: "set (Encode n src) \<subseteq> set (bytes_of_string encodeStd)"
proof (induction "length src" arbitrary: src n rule: less_induct)
  case less
  have g: "set (map encode_tab (take m (groups src))) \<subseteq> set (bytes_of_string encodeStd)" for m
    using groups_less32 [of src] encode_tab_facts(5) by (auto dest!: in_set_takeD)
  show ?case
  proof (cases "src = []")
    case True
    then show ?thesis by (simp add: Encode.simps)
  next
    case False
    show ?thesis
    proof (cases "length src < 5")
      case True
      with False g show ?thesis by (simp add: Encode_short)
    next
      case False
      then have "length (drop 5 src) < length src" by simp
      from less [OF this] g False show ?thesis by (simp add: Encode_long)
    qed
  qed
qed

lemma length_Encode: "length (Encode (EncodedLen (length src)) src) = EncodedLen (length src)"
proof (induction "length src" arbitrary: src rule: less_induct)
  case less
  show ?case
  proof (cases "src = []")
    case True
    then show ?thesis by (simp add: Encode.simps EncodedLen_def)
  next
    case ne: False
    show ?thesis
    proof (cases "length src < 5")
      case True
      then have "EncodedLen (length src) \<le> 8" by (simp add: EncodedLen_def)
      with ne True show ?thesis by (simp add: Encode_short length_groups)
    next
      case False
      then have lt: "length (drop 5 src) < length src" by simp
      have "length src = 5 + length (drop 5 src)" using False by simp
      then have el: "EncodedLen (length src) = 8 + EncodedLen (length (drop 5 src))"
        using EncodedLen_step [of "length (drop 5 src)"] by simp
      have "Encode (8 + EncodedLen (length (drop 5 src))) src =
          map encode_tab (take (min (8 + EncodedLen (length (drop 5 src))) 8) (groups src))
          @ Encode (8 + EncodedLen (length (drop 5 src)) - 8) (drop 5 src)"
        using False by (intro Encode_long) simp
      then show ?thesis using less [OF lt] el by (simp add: length_groups)
    qed
  qed
qed

lemma ToBase32_canonical:
  "ToBase32 U v k = map lower_byte (string_of_bytes (Encode (EncodedLen (Suc (length k))) (v # k)))"
proof -
  have "isASCII (string_of_bytes (Encode (EncodedLen (Suc (length k))) (v # k)))"
    using set_Encode [of "EncodedLen (Suc (length k))" "v # k"] alphabet_chars
    by (auto simp: isASCII_def string_of_bytes_def)
  then show ?thesis by (simp add: ToBase32_def EncodeToString_def strings_ToLower_def)
qed

lemma FromBase32_ToBase32:
  assumes "length b = 16"
  shows "FromBase32 U k (EncryptionKey_ToBase32 U b) = Return (copy k b, None)"
proof -
  let ?E = "Encode (EncodedLen (Suc (length b))) (encKeyVersionByte # b)"
  have sub: "set ?E \<subseteq> set (bytes_of_string encodeStd)" by (rule set_Encode)
  have len: "length ?E = 28"
    using length_Encode [of "encKeyVersionByte # b"] assms by (simp add: EncodedLen_def)
  have enc: "EncryptionKey_ToBase32 U b = map lower_byte (string_of_bytes ?E)"
    by (simp add: EncryptionKey_ToBase32_def ToBase32_canonical)
  have asc: "isASCII (map lower_byte (string_of_bytes ?E))"
    using sub alphabet_chars by (auto simp: isASCII_def string_of_bytes_def)
  have up: "map upper_byte (map lower_byte (string_of_bytes ?E)) = string_of_bytes ?E"
    using sub alphabet_chars by (auto simp: string_of_bytes_def)
  have strip: "stripNewlines ?E = ?E"
    using sub alphabet_chars by (auto simp: stripNewlines_def filter_id_conv)
  have dec: "DecodeString (string_of_bytes ?E) = Inr (encKeyVersionByte # b)"
    using decode_Encode [of "length ?E" "encKeyVersionByte # b"]
    by (simp add: DecodeString_def bytes_of_string_of_bytes strip Let_def)
  have up': "strings_ToUpper U (map lower_byte (string_of_bytes ?E)) = string_of_bytes ?E"
    using asc up by (simp add: strings_ToUpper_def)
  have len': "length (string_of_bytes ?E) = 28"
    using len by (simp add: string_of_bytes_def)
  show ?thesis
    unfolding enc FromBase32_def up' dec
    by (simp add: len' encKeySizeEncoded_def)
qed

section \<open>Put, then Get\<close>

lemma mem_KV_contract: "kv_contract mem_KV"
  unfolding kv_contract_def stored_def mem_KV_def
  by (auto simp: mem_Put_def mem_Get_def mem_Delete_def mem_Invalidate_def mem_Ping_def
      Class_New_def split: option.splits if_splits prod.splits)

lemma Put_stored:
  assumes "kv_contract (kv db)" and "Put L db k g p rnd st = ((s, None), st1)"
  shows "\<exists>a esk eag. ParseAccess L g = Inr a \<and> s = copy (replicate 32 0) (fst rnd)
     \<and> Encrypt L s EncAESGCM (ToStorjKey k) (Nonce []) = Inr esk
     \<and> Encrypt L (bytes_of_string g) EncAESGCM (ToStorjKey k) (Nonce [1]) = Inr eag
     \<and> stored (kv db) (Hash L k)
          \<lparr>SatelliteAddress = access_SatelliteAddress a, MacaroonHead = APIKey_Head a,
           EncryptedSecretKey = esk, EncryptedAccessGrant = eag, Public = p\<rparr> st1"
proof -
  from assms(2) obtain a u esk eag where
    a: "ParseAccess L g = Inr a" and
    s: "s = copy (replicate 32 0) (fst rnd)" and
    esk: "Encrypt L s EncAESGCM (ToStorjKey k) (Nonce []) = Inr esk" and
    eag: "Encrypt L (bytes_of_string g) EncAESGCM (ToStorjKey k) (Nonce [1]) = Inr eag" and
    put: "kv_Put (kv db) (Hash L k)
          \<lparr>SatelliteAddress = access_SatelliteAddress a, MacaroonHead = APIKey_Head a,
           EncryptedSecretKey = esk, EncryptedAccessGrant = eag, Public = p\<rparr> st = (None, st1)"
    by (auto simp: Put_def Let_def split: sum.splits if_splits option.splits prod.splits)
  from assms(1) put have "stored (kv db) (Hash L k)
          \<lparr>SatelliteAddress = access_SatelliteAddress a, MacaroonHead = APIKey_Head a,
           EncryptedSecretKey = esk, EncryptedAccessGrant = eag, Public = p\<rparr> st1"
    unfolding kv_contract_def by (metis fst_conv snd_conv)
  with a s esk eag show ?thesis by blast
qed

lemma Put_keeps_stored:
  assumes "kv_contract (kv db)" and "stored (kv db) h r st"
  shows "stored (kv db) h r (snd (Put L db k g p rnd st))"
proof -
  have "snd (Put L db k g p rnd st) = st \<or>
        (\<exists>h' r'. snd (Put L db k g p rnd st) = snd (kv_Put (kv db) h' r' st))"
    by (auto simp: Put_def Let_def split: sum.splits if_splits option.splits prod.splits)
       (metis snd_conv)+
  with assms show ?thesis unfolding kv_contract_def by metis
qed

lemma apply_op_keeps_stored:
  assumes "kv_contract (kv db)" and "stored (kv db) h r st" and "\<not> removes L h op"
  shows "stored (kv db) h r (apply_op L db op st)"
proof (cases op)
  case (OpPut k g p rnd)
  with assms Put_keeps_stored show ?thesis by simp
next
  case (OpGet k)
  have "snd (Get L db k st) = snd (kv_Get (kv db) (Hash L k) st)"
    by (auto simp: Get_def Let_def split: sum.splits option.splits prod.splits)
  with assms OpGet show ?thesis unfolding kv_contract_def by simp
next
  case (OpDelete k)
  have "snd (Delete L db k st) = snd (kv_Delete (kv db) (Hash L k) st)"
    by (auto simp: Delete_def split: prod.splits)
  with assms OpDelete show ?thesis unfolding kv_contract_def by simp
next
  case (OpInvalidate k reason)
  have "snd (Invalidate L db k reason st) = snd (kv_Invalidate (kv db) (Hash L k) reason st)"
    by (auto simp: Invalidate_def split: prod.splits)
  with assms OpInvalidate show ?thesis unfolding kv_contract_def by simp
next
  case OpPing
  have "snd (Ping db st) = snd (kv_Ping (kv db) st)"
    by (auto simp: Ping_def split: prod.splits)
  with assms OpPing show ?thesis unfolding kv_contract_def by simp
qed

lemma fold_keeps_stored:
  assumes "kv_contract (kv db)"
  shows "stored (kv db) h r st \<Longrightarrow> \<forall>op \<in> set ops. \<not> removes L h op \<Longrightarrow>
         stored (kv db) h r (fold (apply_op L db) ops st)"
proof (induction ops arbitrary: st)
  case Nil
  then show ?case by simp
next
  case (Cons op ops)
  then show ?case using apply_op_keeps_stored [OF assms] by simp
qed

lemma Get_stored:
  assumes "stored (kv db) (Hash L k) r st"
  shows "fst (Get L db k st) =
     (case Decrypt L (EncryptedSecretKey r) EncAESGCM (ToStorjKey k) (Nonce []) of
        Inl err \<Rightarrow> ([], False, replicate 32 0, Some (errs_Wrap (External err)))
      | Inr sk \<Rightarrow>
         (case Decrypt L (EncryptedAccessGrant r) EncAESGCM (ToStorjKey k) (Nonce [1]) of
            Inl err \<Rightarrow> ([], False, copy (replicate 32 0) sk, Some (errs_Wrap (External err)))
          | Inr ag \<Rightarrow> (string_of_bytes ag, Public r, copy (replicate 32 0) sk, None)))"
  using assms
  by (cases "kv_Get (kv db) (Hash L k) st")
     (auto simp: stored_def Get_def Let_def split: sum.splits)

lemma copy_copy: "copy (replicate 32 0) (copy (replicate 32 0) x) = copy (replicate 32 0) x"
  by (simp add: copy_def min_def)

text \<open>
  C1. Let the store honour its contract and decryption undo encryption. If
  \<open>Put k g p\<close> succeeds and returns the secret key \<open>s\<close>, then after any sequence of
  operations in which no \<open>Delete\<close> and no \<open>Invalidate\<close> hits the hash of \<open>k\<close>, \<open>Get k\<close>
  succeeds and returns exactly \<open>(g, p, s)\<close>.
\<close>

theorem Put_then_Get:
  assumes "kv_contract (kv db)" and "aead_correct L"
    and "Put L db k g p rnd st = ((s, None), st1)"
    and "\<forall>op \<in> set ops. \<not> removes L (Hash L k) op"
  shows "fst (Get L db k (fold (apply_op L db) ops st1)) = (g, p, s, None)"
proof -
  from Put_stored [OF assms(1,3)] obtain a esk eag where
    "ParseAccess L g = Inr a" and
    s: "s = copy (replicate 32 0) (fst rnd)" and
    esk: "Encrypt L s EncAESGCM (ToStorjKey k) (Nonce []) = Inr esk" and
    eag: "Encrypt L (bytes_of_string g) EncAESGCM (ToStorjKey k) (Nonce [1]) = Inr eag" and
    st: "stored (kv db) (Hash L k)
          \<lparr>SatelliteAddress = access_SatelliteAddress a, MacaroonHead = APIKey_Head a,
           EncryptedSecretKey = esk, EncryptedAccessGrant = eag, Public = p\<rparr> st1"
    by blast
  from assms(2) esk have d1: "Decrypt L esk EncAESGCM (ToStorjKey k) (Nonce []) = Inr s"
    by (simp add: aead_correct_def)
  from assms(2) eag have d2:
    "Decrypt L eag EncAESGCM (ToStorjKey k) (Nonce [1]) = Inr (bytes_of_string g)"
    by (simp add: aead_correct_def)
  from fold_keeps_stored [OF assms(1) st assms(4)]
  have "stored (kv db) (Hash L k)
          \<lparr>SatelliteAddress = access_SatelliteAddress a, MacaroonHead = APIKey_Head a,
           EncryptedSecretKey = esk, EncryptedAccessGrant = eag, Public = p\<rparr>
          (fold (apply_op L db) ops st1)" .
  from Get_stored [OF this] d1 d2 show ?thesis
    by (simp add: string_of_bytes_of_string s copy_copy)
qed

text \<open>The small instance satisfies both assumptions.\<close>

lemma demo_aead: "aead_correct demo_libs"
  by (auto simp: aead_correct_def demo_libs_def demo_Encrypt_def demo_Decrypt_def)

lemma demo_db_kv: "kv demo_db = mem_KV"
  by (simp add: demo_db_def NewDatabase_def)

lemma demo_contract: "kv_contract (kv demo_db)"
  by (simp add: demo_db_kv mem_KV_contract)

lemma copy_replicate: "copy (replicate n x) (replicate n y) = replicate n y"
  by (simp add: copy_def)

lemma demo_Put:
  "fst (Put demo_libs demo_db demo_key ''id1@sat1.example:7777'' False demo_rnd Map.empty)
     = (fst demo_rnd, None)"
  by (simp add: Put_def demo_libs_def demo_ParseAccess_def demo_ParseNodeURL_def demo_db_def
      NewDatabase_def demo_Encrypt_def mem_KV_def mem_Put_def Hash_def demo_rnd_def Let_def
      copy_replicate)

theorem Put_then_Get_witness:
  "kv_contract (kv demo_db) \<and> aead_correct demo_libs
   \<and> fst (Put demo_libs demo_db demo_key ''id1@sat1.example:7777'' False demo_rnd Map.empty)
       = (fst demo_rnd, None)
   \<and> \<not> removes demo_libs (Hash demo_libs demo_key) (OpGet [0])
   \<and> \<not> removes demo_libs (Hash demo_libs demo_key) OpPing
   \<and> \<not> removes demo_libs (Hash demo_libs demo_key) (OpDelete [0])
   \<and> fst (Get demo_libs demo_db demo_key
        (fold (apply_op demo_libs demo_db) [OpGet [0], OpPing, OpDelete [0]]
           (snd (Put demo_libs demo_db demo_key ''id1@sat1.example:7777'' False demo_rnd Map.empty))))
       = (''id1@sat1.example:7777'', False, fst demo_rnd, None)"
proof -
  have q: "\<forall>op \<in> set [OpGet [0], OpPing, OpDelete [0]].
      \<not> removes demo_libs (Hash demo_libs demo_key) op"
    by (simp add: Hash_def demo_libs_def demo_key_def)
  have p: "Put demo_libs demo_db demo_key ''id1@sat1.example:7777'' False demo_rnd Map.empty
      = ((fst demo_rnd, None),
         snd (Put demo_libs demo_db demo_key ''id1@sat1.example:7777'' False demo_rnd Map.empty))"
    using demo_Put by (simp add: prod_eq_iff)
  from Put_then_Get [OF demo_contract demo_aead p q] demo_contract demo_aead demo_Put q
  show ?thesis by simp
qed

section \<open>Base32: encoding undoes decoding on canonical strings\<close>

lemma lower_alphabet_upper:
  "\<forall>c \<in> set lowerAlphabet.
     (of_char c :: nat) < 128 \<and> lower_byte (upper_byte c) = c
     \<and> upper_byte c \<in> set encodeStd"
  unfolding lowerAlphabet_def encodeStd_def
  by (simp add: upper_byte_def lower_byte_def char_of_eq_iff)

lemma alphabet_image:
  assumes "c \<in> set encodeStd"
  shows "\<exists>v. v < 32 \<and> byte_of_char c = encode_tab v"
proof -
  from assms obtain i where i: "i < length encodeStd" and c: "encodeStd ! i = c"
    by (auto simp: in_set_conv_nth)
  have i32: "i < 32" using i by (simp add: encodeStd_def)
  then have u: "unat (of_nat i :: byte) = i" by (simp add: unat_of_nat)
  then have "(of_nat i :: byte) < 32" using i32 by (simp add: word_less_nat_alt)
  moreover have "byte_of_char c = encode_tab (of_nat i)" using c u by (simp add: encode_tab_def)
  ultimately show ?thesis by blast
qed

lemma char_value_facts:
  assumes "c \<in> set lowerAlphabet"
  shows "char_value c < 32" "encode_tab (char_value c) = byte_of_char (upper_byte c)"
    "lower_byte (char_of_byte (encode_tab (char_value c))) = c" "(of_char c :: nat) < 128"
    "encode_tab (char_value c) \<noteq> 10" "encode_tab (char_value c) \<noteq> 13"
proof -
  from lower_alphabet_upper assms have asc: "(of_char c :: nat) < 128"
    and lu: "lower_byte (upper_byte c) = c" and up: "upper_byte c \<in> set encodeStd"
    by blast+
  from alphabet_image [OF up] obtain v where v: "v < 32"
    and e: "byte_of_char (upper_byte c) = encode_tab v" by blast
  have cv: "char_value c = v" using encode_tab_facts(1) [OF v] e by (simp add: char_value_def)
  show "char_value c < 32" using cv v by simp
  show "encode_tab (char_value c) = byte_of_char (upper_byte c)" using cv e by simp
  then show "lower_byte (char_of_byte (encode_tab (char_value c))) = c"
    using lu by (simp add: char_of_byte_of_char)
  show "(of_char c :: nat) < 128" by (rule asc)
  show "encode_tab (char_value c) \<noteq> 10" "encode_tab (char_value c) \<noteq> 13"
    using encode_tab_facts(3,4) [OF v] cv by simp_all
qed

lemma last_values: "char_value (CHR ''a'') = 0" "char_value (CHR ''q'') = 16"
proof -
  have a: "byte_of_char (upper_byte (CHR ''a'')) = encode_tab 0"
    by (simp add: upper_byte_def byte_of_char_def encode_tab_def encodeStd_def)
  have q: "byte_of_char (upper_byte (CHR ''q'')) = encode_tab 16"
    by (simp add: upper_byte_def byte_of_char_def encode_tab_def encodeStd_def)
  show "char_value (CHR ''a'') = 0"
    unfolding char_value_def a by (rule encode_tab_facts(1)) simp
  show "char_value (CHR ''q'') = 16"
    unfolding char_value_def q by (rule encode_tab_facts(1)) simp
qed

lemma decode_quantum_full:
  assumes "length q = 8" and "\<forall>v \<in> set q. v < 32"
  shows "decode olen (map encode_tab q @ tail) =
     (case decode olen tail of Inl e \<Rightarrow> Inl e | Inr ys \<Rightarrow> Inr (pack 8 q @ ys))"
proof -
  have "readQuantum olen 0 (replicate 8 0) (map encode_tab q @ tail) =
      Quantum (0 + length q)
        (take 0 (replicate 8 0) @ q @ drop (0 + length q) (replicate 8 0))
        (0 + length q < 8) tail"
    using assms by (intro readQuantum_groups) simp_all
  then have rq: "readQuantum olen 0 (replicate 8 0) (map encode_tab q @ tail) =
      Quantum 8 q False tail"
    using assms(1) by simp
  have ne: "q \<noteq> []" using assms(1) by auto
  show ?thesis using ne rq by (subst decode.simps) simp
qed

lemma decode_quantum_last:
  assumes "length q = m" and "0 < m" and "m < 8" and "\<forall>v \<in> set q. v < 32"
  shows "decode olen (map encode_tab q) = Inr (pack m (q @ replicate (8 - m) 0))"
proof -
  have "readQuantum olen 0 (replicate 8 0) (map encode_tab q @ []) =
      Quantum (0 + length q) (take 0 (replicate 8 0) @ q @ drop (0 + length q) (replicate 8 0))
        (0 + length q < 8) []"
    using assms by (intro readQuantum_groups) simp_all
  then have rq: "readQuantum olen 0 (replicate 8 0) (map encode_tab q) =
      Quantum m (q @ replicate (8 - m) 0) True []"
    using assms by simp
  have ne: "q \<noteq> []" using assms(1,2) by auto
  show ?thesis using ne rq by (subst decode.simps) simp
qed

lemma less32_take_bit: "(v::byte) < 32 \<Longrightarrow> take_bit 5 v = v"
proof -
  assume "v < 32"
  then have "v < 2 ^ 5" by simp
  then have "v AND mask 5 = v" by (rule less_mask_eq)
  then show ?thesis by (simp add: take_bit_eq_mask)
qed

lemma bit_push: "bit (push_bit k (x::byte)) n = (k \<le> n \<and> n < 8 \<and> bit x (n - k))"
  by (auto simp: bit_simps dest: bit_imp_le_length)

lemma bit_mult_pow2:
  "bit (2 * (x::byte)) n = (1 \<le> n \<and> n < 8 \<and> bit x (n - 1))"
  "bit (4 * (x::byte)) n = (2 \<le> n \<and> n < 8 \<and> bit x (n - 2))"
  "bit (8 * (x::byte)) n = (3 \<le> n \<and> n < 8 \<and> bit x (n - 3))"
  "bit (16 * (x::byte)) n = (4 \<le> n \<and> n < 8 \<and> bit x (n - 4))"
  "bit (32 * (x::byte)) n = (5 \<le> n \<and> n < 8 \<and> bit x (n - 5))"
  "bit (64 * (x::byte)) n = (6 \<le> n \<and> n < 8 \<and> bit x (n - 6))"
  "bit (128 * (x::byte)) n = (7 \<le> n \<and> n < 8 \<and> bit x (n - 7))"
  using bit_push [of 1 x n] bit_push [of 2 x n] bit_push [of 3 x n] bit_push [of 4 x n]
    bit_push [of 5 x n] bit_push [of 6 x n] bit_push [of 7 x n]
  by (simp_all add: push_bit_eq_mult mult.commute)

lemma groups_pack8_bits:
  "groups (pack 8 (map (take_bit 5) [w0, w1, w2, w3, w4, w5, w6, w7]) @ rest)
     = map (take_bit 5) [w0, w1, w2, w3, w4, w5, w6, w7]"
  apply (simp add: groups_def pack_def unpack_def Let_def replicate8 upt8 and_1F)
  apply (intro conjI; rule byte_eqI; simp add: bit_simps byte_bit_hi bit_times2 Suc_nums bit_mult_pow2)
  done

lemma replicate4: "replicate 4 x = [x, x, x, x]"
  by (simp add: numeral_eq_Suc)

lemma groups_pack4_bits:
  "take 4 (groups (pack 4 ([take_bit 5 w0, take_bit 5 w1, take_bit 5 w2,
       push_bit 4 (take_bit 1 w3)] @ replicate 4 0)))
     = [take_bit 5 w0, take_bit 5 w1, take_bit 5 w2, push_bit 4 (take_bit 1 w3)]"
  apply (simp add: groups_def pack_def unpack_def Let_def replicate8 replicate4 upt8 and_1F)
  apply (intro conjI; rule byte_eqI; simp add: bit_simps byte_bit_hi bit_times2 Suc_nums bit_mult_pow2)
  done

lemma below8:
  assumes "n < 8" and "P 0" "P 1" "P 2" "P 3" "P 4" "P 5" "P 6" "P (7::nat)"
  shows "P n"
proof -
  from assms(1) have "n \<in> {0, 1, 2, 3, 4, 5, 6, 7}" by auto
  with assms(2-) show ?thesis by auto
qed

lemma list8:
  assumes "length q = 8"
  shows "q = [q ! 0, q ! 1, q ! 2, q ! 3, q ! 4, q ! 5, q ! 6, q ! 7]"
proof (rule nth_equalityI)
  show "length q = length [q ! 0, q ! 1, q ! 2, q ! 3, q ! 4, q ! 5, q ! 6, q ! 7]"
    using assms by simp
next
  fix i assume "i < length q"
  then have "i < 8" using assms by simp
  then show "q ! i = [q ! 0, q ! 1, q ! 2, q ! 3, q ! 4, q ! 5, q ! 6, q ! 7] ! i"
    by (rule below8) simp_all
qed

lemma list4:
  assumes "length q = 4"
  shows "q = [q ! 0, q ! 1, q ! 2, q ! 3]"
proof (rule nth_equalityI)
  show "length q = length [q ! 0, q ! 1, q ! 2, q ! 3]" using assms by simp
next
  fix i assume "i < length q"
  then have "i < 4" using assms by simp
  then consider "i = 0" | "i = 1" | "i = 2" | "i = 3" by linarith
  then show "q ! i = [q ! 0, q ! 1, q ! 2, q ! 3] ! i" by cases simp_all
qed

lemma groups_pack8:
  assumes "length q = 8" and "\<forall>v \<in> set q. v < 32"
  shows "groups (pack 8 q @ rest) = q"
proof -
  have m: "map (take_bit 5) q = q"
    using assms(2) by (intro map_idI) (simp add: less32_take_bit)
  have "groups (pack 8 (map (take_bit 5)
          [q ! 0, q ! 1, q ! 2, q ! 3, q ! 4, q ! 5, q ! 6, q ! 7]) @ rest)
      = map (take_bit 5) [q ! 0, q ! 1, q ! 2, q ! 3, q ! 4, q ! 5, q ! 6, q ! 7]"
    by (rule groups_pack8_bits)
  then have "groups (pack 8 (map (take_bit 5) q) @ rest) = map (take_bit 5) q"
    by (simp only: list8 [OF assms(1), symmetric])
  then show ?thesis by (simp only: m)
qed

lemma groups_pack4:
  assumes "length q = 4" and "\<forall>v \<in> set q. v < 32" and "q ! 3 = 0 \<or> q ! 3 = 16"
  shows "take 4 (groups (pack 4 (q @ replicate 4 0))) = q"
proof -
  have t: "take_bit 5 (q ! 0) = q ! 0" "take_bit 5 (q ! 1) = q ! 1" "take_bit 5 (q ! 2) = q ! 2"
    using assms(1,2) by (simp_all add: less32_take_bit)
  obtain w3 :: byte where w3: "push_bit 4 (take_bit 1 w3) = q ! 3"
  proof (cases "q ! 3 = 0")
    case True
    then have "push_bit 4 (take_bit 1 (0::byte)) = q ! 3" by simp
    then show ?thesis by (rule that)
  next
    case False
    with assms(3) have "push_bit 4 (take_bit 1 (1::byte)) = q ! 3" by simp
    then show ?thesis by (rule that)
  qed
  have "[take_bit 5 (q ! 0), take_bit 5 (q ! 1), take_bit 5 (q ! 2), push_bit 4 (take_bit 1 w3)]
      = [q ! 0, q ! 1, q ! 2, q ! 3]"
    by (simp only: t w3)
  also have "\<dots> = q" by (rule list4 [OF assms(1), symmetric])
  finally have e: "[take_bit 5 (q ! 0), take_bit 5 (q ! 1), take_bit 5 (q ! 2),
      push_bit 4 (take_bit 1 w3)] = q" .
  from groups_pack4_bits [of "q ! 0" "q ! 1" "q ! 2" w3] show ?thesis
    unfolding e .
qed

lemma length_pack: "length (pack 8 q) = 5" "length (pack 4 q) = 2"
  by (simp_all add: pack_def)

lemma decode_then_Encode_28:
  assumes len: "length vs = 28" and lt: "\<forall>v \<in> set vs. v < 32"
    and lst: "last vs = 0 \<or> last vs = 16"
  shows "\<exists>data. decode olen (map encode_tab vs) = Inr data \<and> length data = 17
           \<and> Encode 28 data = map encode_tab vs"
proof -
  define q1 where "q1 = take 8 vs"
  define q2 where "q2 = take 8 (drop 8 vs)"
  define q3 where "q3 = take 8 (drop 16 vs)"
  define q4 where "q4 = drop 24 vs"
  have a3: "take 8 (drop 16 vs) @ drop 24 vs = drop 16 vs"
    using append_take_drop_id [of 8 "drop 16 vs"] by simp
  have a2: "take 8 (drop 8 vs) @ drop 16 vs = drop 8 vs"
    using append_take_drop_id [of 8 "drop 8 vs"] by simp
  have a1: "take 8 vs @ drop 8 vs = vs" by simp
  have vs: "vs = q1 @ q2 @ q3 @ q4"
    unfolding q1_def q2_def q3_def q4_def by (simp only: a3 a2 a1)
  have l: "length q1 = 8" "length q2 = 8" "length q3 = 8" "length q4 = 4"
    using len by (simp_all add: q1_def q2_def q3_def q4_def)
  have b: "\<forall>v \<in> set q1. v < 32" "\<forall>v \<in> set q2. v < 32" "\<forall>v \<in> set q3. v < 32"
    "\<forall>v \<in> set q4. v < 32"
    using lt by (auto simp: q1_def q2_def q3_def q4_def dest: in_set_takeD in_set_dropD)
  have "q4 \<noteq> []" using l(4) by auto
  then have "last vs = last q4" unfolding vs by simp
  also have "\<dots> = q4 ! 3" using \<open>q4 \<noteq> []\<close> l(4) by (simp add: last_conv_nth)
  finally have q43: "q4 ! 3 = 0 \<or> q4 ! 3 = 16" using lst by simp
  let ?d4 = "pack 4 (q4 @ replicate 4 0)"
  let ?data = "pack 8 q1 @ pack 8 q2 @ pack 8 q3 @ ?d4"
  have d4: "decode olen (map encode_tab q4) = Inr ?d4"
    using decode_quantum_last [of q4 4 olen] l(4) b(4) by simp
  have d3: "decode olen (map encode_tab q3 @ map encode_tab q4) = Inr (pack 8 q3 @ ?d4)"
    using decode_quantum_full [OF l(3) b(3), of olen "map encode_tab q4"] d4 by simp
  have d2: "decode olen (map encode_tab q2 @ map encode_tab q3 @ map encode_tab q4)
      = Inr (pack 8 q2 @ pack 8 q3 @ ?d4)"
    using decode_quantum_full [OF l(2) b(2), of olen "map encode_tab q3 @ map encode_tab q4"] d3
    by simp
  have d1: "decode olen (map encode_tab vs) = Inr ?data"
    using decode_quantum_full [OF l(1) b(1), of olen
        "map encode_tab q2 @ map encode_tab q3 @ map encode_tab q4"] d2
    unfolding vs by simp
  have e4: "Encode 4 ?d4 = map encode_tab q4"
    using Encode_short [of ?d4 4] groups_pack4 [OF l(4) b(4) q43]
    by (simp add: length_pack pack_def)
  have e3: "Encode 12 (pack 8 q3 @ ?d4) = map encode_tab q3 @ map encode_tab q4"
    using Encode_long [of "pack 8 q3 @ ?d4" 12] groups_pack8 [OF l(3) b(3), of ?d4] e4 l(3)
    by (simp add: length_pack)
  have e2: "Encode 20 (pack 8 q2 @ pack 8 q3 @ ?d4)
      = map encode_tab q2 @ map encode_tab q3 @ map encode_tab q4"
    using Encode_long [of "pack 8 q2 @ pack 8 q3 @ ?d4" 20]
      groups_pack8 [OF l(2) b(2), of "pack 8 q3 @ ?d4"] e3 l(2)
    by (simp add: length_pack)
  have e1: "Encode 28 ?data = map encode_tab vs"
    using Encode_long [of ?data 28]
      groups_pack8 [OF l(1) b(1), of "pack 8 q2 @ pack 8 q3 @ ?d4"] e2 l(1)
    unfolding vs by (simp add: length_pack)
  have "length ?data = 17" by (simp add: length_pack)
  with d1 e1 show ?thesis by blast
qed

lemma copy_full: "length k = length b \<Longrightarrow> copy k b = b"
  by (simp add: copy_def)

text \<open>
  C7 (amended). For a receiver of 16 bytes: decoding undoes encoding, for every key \<open>b\<close>
  of 16 bytes \<open>FromBase32 (ToBase32 b)\<close> succeeds and yields \<open>b\<close>; and encoding undoes
  decoding on canonical strings, for every string \<open>x\<close> of 28 lower-case base32 characters
  whose last character is \<open>a\<close> or \<open>q\<close>, if \<open>FromBase32 x\<close> succeeds then \<open>ToBase32\<close> of the
  decoded key is \<open>x\<close>.
\<close>

theorem base32_round_trip:
  assumes "length k = 16"
  shows "(length b = 16 \<longrightarrow> FromBase32 U k (EncryptionKey_ToBase32 U b) = Return (b, None))
    \<and> (canonical x \<longrightarrow>
         (\<forall>k'. FromBase32 U k x = Return (k', None) \<longrightarrow> EncryptionKey_ToBase32 U k' = x))"
proof (intro conjI impI allI)
  assume "length b = 16"
  then show "FromBase32 U k (EncryptionKey_ToBase32 U b) = Return (b, None)"
    using FromBase32_ToBase32 [of b U k] assms by (simp add: copy_full)
next
  fix k'
  assume can: "canonical x" and ret: "FromBase32 U k x = Return (k', None)"
  define vs where "vs = map char_value x"
  from can have len: "length x = 28" and sub: "set x \<subseteq> set lowerAlphabet"
    and lst: "last x = CHR ''a'' \<or> last x = CHR ''q''"
    by (simp_all add: canonical_def)
  have asc: "isASCII x" using sub char_value_facts(4) by (auto simp: isASCII_def)
  have up: "bytes_of_string (map upper_byte x) = map encode_tab vs"
    using sub char_value_facts(2) by (auto simp: bytes_of_string_def vs_def)
  have lt: "\<forall>v \<in> set vs. v < 32" using sub char_value_facts(1) by (auto simp: vs_def)
  have lvs: "length vs = 28" using len by (simp add: vs_def)
  have "x \<noteq> []" using len by auto
  then have "last vs = char_value (last x)" by (simp add: vs_def last_map)
  with lst last_values have lv: "last vs = 0 \<or> last vs = 16" by auto
  have strip: "stripNewlines (map encode_tab vs) = map encode_tab vs"
    using sub char_value_facts(5,6) by (auto simp: stripNewlines_def filter_id_conv vs_def)
  from decode_then_Encode_28 [OF lvs lt lv, of 28] obtain data where
    dec: "decode 28 (map encode_tab vs) = Inr data" and ld: "length data = 17"
    and enc: "Encode 28 data = map encode_tab vs"
    by blast
  have ds: "DecodeString (strings_ToUpper U x) = Inr data"
    using asc up strip dec lvs by (simp add: DecodeString_def strings_ToUpper_def Let_def)
  from ld obtain d0 rest where data: "data = d0 # rest" and lr: "length rest = 16"
    by (cases data) simp_all
  from ret have d0: "d0 = encKeyVersionByte" and k': "k' = copy k rest"
    by (simp_all add: FromBase32_def len encKeySizeEncoded_def ds data split: if_splits)
  have k'r: "k' = rest" using k' assms lr by (simp add: copy_full)
  have "EncryptionKey_ToBase32 U k' =
      map lower_byte (string_of_bytes (Encode (EncodedLen (Suc (length k'))) (encKeyVersionByte # k')))"
    by (simp add: EncryptionKey_ToBase32_def ToBase32_canonical)
  also have "\<dots> = map lower_byte (string_of_bytes (Encode 28 data))"
    using k'r lr d0 data by (simp add: EncodedLen_def)
  also have "\<dots> = map (\<lambda>c. lower_byte (char_of_byte (encode_tab (char_value c)))) x"
    by (simp add: enc vs_def string_of_bytes_def)
  also have "\<dots> = x" using sub char_value_facts(3) by (intro map_idI) auto
  finally show "EncryptionKey_ToBase32 U k' = x" .
qed

lemma demo_ToBase32:
  "EncryptionKey_ToBase32 ascii_tables demo_key = ''juaqeayeaudaocajbifqydiob4ia''"
  by code_simp

lemma zero_ToBase32:
  "EncryptionKey_ToBase32 ascii_tables (replicate 16 0) = ''juaaaaaaaaaaaaaaaaaaaaaaaaaa''"
  by code_simp

lemma trailing_bit_accepted:
  "FromBase32 ascii_tables (replicate 16 0) ''juaaaaaaaaaaaaaaaaaaaaaaaaab''
     = Return (replicate 16 0, None)"
  by code_simp

theorem base32_round_trip_witness:
  "length demo_key = 16
   \<and> FromBase32 ascii_tables demo_key (EncryptionKey_ToBase32 ascii_tables demo_key)
       = Return (demo_key, None)
   \<and> canonical ''juaqeayeaudaocajbifqydiob4ia''
   \<and> FromBase32 ascii_tables demo_key ''juaqeayeaudaocajbifqydiob4ia'' = Return (demo_key, None)
   \<and> EncryptionKey_ToBase32 ascii_tables demo_key = ''juaqeayeaudaocajbifqydiob4ia''"
proof -
  have len: "length demo_key = 16" by (simp add: demo_key_def)
  have can: "canonical ''juaqeayeaudaocajbifqydiob4ia''"
    by (simp add: canonical_def lowerAlphabet_def)
  note rt = base32_round_trip [OF len, of demo_key ascii_tables "''juaqeayeaudaocajbifqydiob4ia''"]
  from rt len have a: "FromBase32 ascii_tables demo_key
      (EncryptionKey_ToBase32 ascii_tables demo_key) = Return (demo_key, None)"
    by blast
  then have b: "FromBase32 ascii_tables demo_key ''juaqeayeaudaocajbifqydiob4ia''
      = Return (demo_key, None)"
    by (simp only: demo_ToBase32)
  from rt can b have c: "EncryptionKey_ToBase32 ascii_tables demo_key
      = ''juaqeayeaudaocajbifqydiob4ia''"
    by blast
  show ?thesis by (intro conjI len a can b c)
qed

text \<open>
  C7 as stated fails: the string below has 28 characters of the base32 alphabet and the
  version tag 77, and \<open>FromBase32\<close> accepts it, but the low four bits of its last
  character are not part of the 17 bytes, and \<open>ToBase32\<close> of the decoded key ends in \<open>a\<close>.
\<close>

theorem base32_trailing_bits_lost:
  "FromBase32 ascii_tables (replicate 16 0) ''juaaaaaaaaaaaaaaaaaaaaaaaaab''
     = Return (replicate 16 0, None)
   \<and> EncryptionKey_ToBase32 ascii_tables (replicate 16 0) = ''juaaaaaaaaaaaaaaaaaaaaaaaaaa''
   \<and> EncryptionKey_ToBase32 ascii_tables (replicate 16 0) \<noteq> ''juaaaaaaaaaaaaaaaaaaaaaaaaab''"
  using trailing_bit_accepted zero_ToBase32 by simp

section \<open>Failures of Get and Put\<close>




text \<open>
  C8 (amended). When the grant parses and its satellite address does not parse to an
  address on the allow-list, \<open>Put\<close> fails and leaves the store as it was, whatever the
  store is: its \<^verbatim>\<open>Put\<close> is not called. The error is the disallowed-satellite error when
  the satellite address parses as a node URL, and the error of the node URL parser when
  it does not.
\<close>

theorem Put_disallowed_satellite:
  assumes "ParseAccess L g = Inr a"
    and "\<forall>u. ParseNodeURL L (access_SatelliteAddress a) = Inr u
           \<longrightarrow> allowedSatelliteAddresses db (Address u) = None"
  shows "Put L db k g p rnd st =
      ((replicate 32 0,
        Some (case ParseNodeURL L (access_SatelliteAddress a) of
                Inl e \<Rightarrow> External e
              | Inr u \<Rightarrow> disallowed_satellite (access_SatelliteAddress a))), st)
    \<and> (\<forall>K. Put L (db\<lparr>kv := K\<rparr>) k g p rnd st = Put L db k g p rnd st)"
  using assms by (simp add: Put_def split: sum.splits)

theorem Put_disallowed_satellite_witness:
  "ParseAccess strict_libs ''id2@sat2.example:7777''
     = Inr \<lparr>access_SatelliteAddress = ''id2@sat2.example:7777'', APIKey_Head = []\<rparr>
   \<and> ParseNodeURL strict_libs ''id2@sat2.example:7777''
     = Inr \<lparr>ID = bytes_of_string ''id2'', Address = ''sat2.example:7777''\<rparr>
   \<and> allowedSatelliteAddresses demo_db ''sat2.example:7777'' = None
   \<and> Put strict_libs demo_db demo_key ''id2@sat2.example:7777'' False demo_rnd Map.empty
     = ((replicate 32 0, Some (disallowed_satellite ''id2@sat2.example:7777'')), Map.empty)
   \<and> ParseAccess strict_libs ''not-an-id@sat2.example:7777''
     = Inr \<lparr>access_SatelliteAddress = ''not-an-id@sat2.example:7777'', APIKey_Head = []\<rparr>
   \<and> ParseNodeURL strict_libs ''not-an-id@sat2.example:7777''
     = Inl ''node URL error: invalid node ID''
   \<and> Put strict_libs demo_db demo_key ''not-an-id@sat2.example:7777'' False demo_rnd Map.empty
     = ((replicate 32 0, Some (External ''node URL error: invalid node ID'')), Map.empty)"
proof -
  let ?a = "\<lparr>access_SatelliteAddress = ''id2@sat2.example:7777'', APIKey_Head = []\<rparr>"
  let ?b = "\<lparr>access_SatelliteAddress = ''not-an-id@sat2.example:7777'', APIKey_Head = []\<rparr>"
  have a1: "ParseAccess strict_libs ''id2@sat2.example:7777'' = Inr ?a"
    by (simp add: strict_libs_def demo_ParseAccess_def)
  have a2: "ParseNodeURL strict_libs (access_SatelliteAddress ?a)
     = Inr \<lparr>ID = bytes_of_string ''id2'', Address = ''sat2.example:7777''\<rparr>"
    by (simp add: strict_libs_def strict_ParseNodeURL_def base58_def)
  have a3: "allowedSatelliteAddresses demo_db ''sat2.example:7777'' = None"
    by (simp add: demo_db_def NewDatabase_def)
  from a2 a3
  have a4: "\<forall>u. ParseNodeURL strict_libs (access_SatelliteAddress ?a) = Inr u
           \<longrightarrow> allowedSatelliteAddresses demo_db (Address u) = None"
    by auto
  have b1: "ParseAccess strict_libs ''not-an-id@sat2.example:7777'' = Inr ?b"
    by (simp add: strict_libs_def demo_ParseAccess_def)
  have b2: "ParseNodeURL strict_libs (access_SatelliteAddress ?b)
     = Inl ''node URL error: invalid node ID''"
    by (simp add: strict_libs_def strict_ParseNodeURL_def base58_def)
  from b2
  have b4: "\<forall>u. ParseNodeURL strict_libs (access_SatelliteAddress ?b) = Inr u
           \<longrightarrow> allowedSatelliteAddresses demo_db (Address u) = None"
    by simp
  from Put_disallowed_satellite [OF a1 a4, of demo_key False demo_rnd Map.empty]
  have pa: "Put strict_libs demo_db demo_key ''id2@sat2.example:7777'' False demo_rnd Map.empty
     = ((replicate 32 0, Some (disallowed_satellite ''id2@sat2.example:7777'')), Map.empty)"
    unfolding a2 by simp
  from Put_disallowed_satellite [OF b1 b4, of demo_key False demo_rnd Map.empty]
  have pb: "Put strict_libs demo_db demo_key ''not-an-id@sat2.example:7777'' False demo_rnd Map.empty
     = ((replicate 32 0, Some (External ''node URL error: invalid node ID'')), Map.empty)"
    unfolding b2 by simp
  from a1 a2 a3 pa b1 b2 pb show ?thesis by simp
qed

text \<open>
  C8 as stated fails: a grant parses, the node ID of its satellite address is not a node
  ID, and its host and port are not on the allow-list; \<open>Put\<close> returns the error of the
  node URL parser, which is not the disallowed-satellite error.
\<close>

theorem Put_unparsable_satellite:
  "ParseAccess strict_libs ''not-an-id@sat2.example:7777''
     = Inr \<lparr>access_SatelliteAddress = ''not-an-id@sat2.example:7777'', APIKey_Head = []\<rparr>
   \<and> allowedSatelliteAddresses demo_db ''sat2.example:7777'' = None
   \<and> allowedSatelliteAddresses demo_db ''not-an-id@sat2.example:7777'' = None
   \<and> Put strict_libs demo_db demo_key ''not-an-id@sat2.example:7777'' False demo_rnd Map.empty
     = ((replicate 32 0, Some (External ''node URL error: invalid node ID'')), Map.empty)
   \<and> External ''node URL error: invalid node ID''
       \<noteq> disallowed_satellite ''not-an-id@sat2.example:7777''"
  by (simp add: Put_def strict_libs_def demo_ParseAccess_def strict_ParseNodeURL_def base58_def
      demo_db_def NewDatabase_def disallowed_satellite_def errs_New_def)

section \<open>FromBase32\<close>

text \<open>
  C9. Whenever \<open>FromBase32\<close> returns an error, the receiver is what it was before the
  call.
\<close>

theorem FromBase32_error_keeps_receiver:
  "FromBase32 U k encoded = Return (k', Some e) \<Longrightarrow> k' = k"
  by (auto simp: FromBase32_def split: if_splits sum.splits list.splits)

theorem FromBase32_error_keeps_receiver_witness:
  "FromBase32 ascii_tables demo_key ''abc''
     = Return (demo_key, Some (errs_New
         ''alphanumeric encryption key length expected to be %d, was %d'' [ArgInt 28, ArgInt 3]))"
proof -
  have "\<exists>k' e. FromBase32 ascii_tables demo_key ''abc'' = Return (k', Some e)
      \<and> e = errs_New ''alphanumeric encryption key length expected to be %d, was %d''
               [ArgInt 28, ArgInt 3]"
    by (simp add: FromBase32_def encKeySizeEncoded_def)
  then obtain k' e where h: "FromBase32 ascii_tables demo_key ''abc'' = Return (k', Some e)"
    and e: "e = errs_New ''alphanumeric encryption key length expected to be %d, was %d''
               [ArgInt 28, ArgInt 3]"
    by blast
  from FromBase32_error_keeps_receiver [OF h] h e show ?thesis by simp
qed

lemma isASCII_replicate_nl: "isASCII (replicate n (CHR 0x0A))"
  by (simp add: isASCII_def)

lemma strip_nl: "stripNewlines (bytes_of_string (replicate n (CHR 0x0A))) = []"
  by (induction n) (simp_all add: stripNewlines_def bytes_of_string_def byte_of_char_def)

lemma upper_nl: "upper_byte (CHR 0x0A) = CHR 0x0A"
  by (simp add: upper_byte_def)

text \<open>
  C10. A string of 28 line feeds passes the length check; the decoder drops the line
  feeds and returns no bytes and no error; reading \<^verbatim>\<open>data[0]\<close> panics.
\<close>

theorem FromBase32_newlines_panic:
  "FromBase32 U k (replicate 28 (CHR 0x0A)) = Panic ''index out of range [0] with length 0''"
  by (simp add: FromBase32_def encKeySizeEncoded_def strings_ToUpper_def isASCII_replicate_nl
      upper_nl DecodeString_def strip_nl decode.simps)


section \<open>Cipher key and nonces\<close>

lemma ToStorjKey_16: "length k = 16 \<Longrightarrow> ToStorjKey k = k @ replicate 16 0"
  by (simp add: ToStorjKey_def copy_def)

lemma nonce_values:
  "ToAESGCMNonce (Nonce []) = replicate 12 0" "ToAESGCMNonce (Nonce [1]) = 1 # replicate 11 0"
  by (simp_all add: ToAESGCMNonce_def Nonce_def copy_def numeral_eq_Suc)

lemma Put_is_Put_steps:
  "Put L db k g p rnd st =
     Put_steps (\<lambda>d. Encrypt L d EncAESGCM (ToStorjKey k) (Nonce []))
       (\<lambda>d. Encrypt L d EncAESGCM (ToStorjKey k) (Nonce [1])) L db k g p rnd st"
  by (simp add: Put_def Put_steps_def seal_and_store_def Let_def
      split: sum.splits option.splits prod.splits)

lemma Get_is_Get_steps:
  "Get L db k st =
     Get_steps (\<lambda>c. Decrypt L c EncAESGCM (ToStorjKey k) (Nonce []))
       (\<lambda>c. Decrypt L c EncAESGCM (ToStorjKey k) (Nonce [1])) L db k st"
  by (simp add: Get_def Get_steps_def open_record_def Let_def errs_Wrap_def
      split: sum.splits option.splits prod.splits)

lemma Nonce_bytes: "Nonce [] = replicate 24 0" "Nonce [1] = 1 # replicate 23 0"
  by (simp_all add: Nonce_def)

text \<open>
  C2. For a key \<open>k\<close> of 16 bytes the cipher key is \<open>k\<close> followed by 16 zero bytes. Every
  \<open>Put\<close> is \<open>Put_steps\<close>, and every \<open>Get\<close> is \<open>Get_steps\<close>, with the secret key encrypted and
  decrypted under that key and the \<^verbatim>\<open>storj.Nonce\<close> of 24 zero bytes, and the grant under
  that key and the \<^verbatim>\<open>storj.Nonce\<close> of a one and 23 zero bytes. When the library calls its
  AES-GCM functions \<open>E\<close> and \<open>D\<close> with the nonce that \<open>ToAESGCMNonce\<close> returns, these calls
  are \<open>E\<close> and \<open>D\<close> with that key and the nonce of 12 zero bytes for the secret key, and
  the nonce of a one and 11 zero bytes for the grant.
\<close>

theorem cipher_key_and_nonces:
  assumes "length k = 16"
  shows "ToStorjKey k = k @ replicate 16 0
    \<and> Put L db k g p rnd st =
        Put_steps (\<lambda>d. Encrypt L d EncAESGCM (k @ replicate 16 0) (replicate 24 0))
          (\<lambda>d. Encrypt L d EncAESGCM (k @ replicate 16 0) (1 # replicate 23 0))
          L db k g p rnd st
    \<and> Get L db k st =
        Get_steps (\<lambda>c. Decrypt L c EncAESGCM (k @ replicate 16 0) (replicate 24 0))
          (\<lambda>c. Decrypt L c EncAESGCM (k @ replicate 16 0) (1 # replicate 23 0))
          L db k st
    \<and> (\<forall>E D. aesgcm_library L E D \<longrightarrow>
         Put L db k g p rnd st =
           Put_steps (\<lambda>d. E d (k @ replicate 16 0) (replicate 12 0))
             (\<lambda>d. E d (k @ replicate 16 0) (1 # replicate 11 0)) L db k g p rnd st
         \<and> Get L db k st =
           Get_steps (\<lambda>c. D c (k @ replicate 16 0) (replicate 12 0))
             (\<lambda>c. D c (k @ replicate 16 0) (1 # replicate 11 0)) L db k st)"
proof -
  have key: "ToStorjKey k = k @ replicate 16 0" by (rule ToStorjKey_16 [OF assms])
  have put: "Put L db k g p rnd st =
        Put_steps (\<lambda>d. Encrypt L d EncAESGCM (k @ replicate 16 0) (replicate 24 0))
          (\<lambda>d. Encrypt L d EncAESGCM (k @ replicate 16 0) (1 # replicate 23 0))
          L db k g p rnd st"
    using Put_is_Put_steps [of L db k g p rnd st] unfolding key Nonce_bytes .
  have get: "Get L db k st =
        Get_steps (\<lambda>c. Decrypt L c EncAESGCM (k @ replicate 16 0) (replicate 24 0))
          (\<lambda>c. Decrypt L c EncAESGCM (k @ replicate 16 0) (1 # replicate 23 0))
          L db k st"
    using Get_is_Get_steps [of L db k st] unfolding key Nonce_bytes .
  have gcm: "Put L db k g p rnd st =
           Put_steps (\<lambda>d. E d (k @ replicate 16 0) (replicate 12 0))
             (\<lambda>d. E d (k @ replicate 16 0) (1 # replicate 11 0)) L db k g p rnd st
         \<and> Get L db k st =
           Get_steps (\<lambda>c. D c (k @ replicate 16 0) (replicate 12 0))
             (\<lambda>c. D c (k @ replicate 16 0) (1 # replicate 11 0)) L db k st"
    if lib: "aesgcm_library L E D" for E D
  proof -
    from lib have e: "Encrypt L d EncAESGCM key nonce = E d key (ToAESGCMNonce nonce)"
      and d: "Decrypt L d EncAESGCM key nonce = D d key (ToAESGCMNonce nonce)" for d key nonce
      by (simp_all add: aesgcm_library_def)
    show ?thesis
      using Put_is_Put_steps [of L db k g p rnd st] Get_is_Get_steps [of L db k st]
      unfolding key e d nonce_values by simp
  qed
  from key put get gcm show ?thesis by blast
qed

lemma demo_Put_state:
  "snd (Put demo_libs demo_db demo_key ''id1@sat1.example:7777'' False demo_rnd Map.empty)
     = [demo_key \<mapsto>
         (\<lparr>SatelliteAddress = ''id1@sat1.example:7777'', MacaroonHead = [],
           EncryptedSecretKey = ToStorjKey demo_key @ Nonce [] @ replicate 32 7,
           EncryptedAccessGrant =
             ToStorjKey demo_key @ Nonce [1] @ bytes_of_string ''id1@sat1.example:7777'',
           Public = False\<rparr>, [])]"
  by (simp add: Put_def demo_libs_def demo_ParseAccess_def demo_ParseNodeURL_def demo_db_def
      NewDatabase_def demo_Encrypt_def mem_KV_def mem_Put_def Hash_def demo_rnd_def Let_def
      copy_replicate)

lemma gcm_library: "aesgcm_library gcm_libs gcm_seal gcm_open"
  by (simp add: aesgcm_library_def gcm_libs_def)

lemma gcm_Put_steps:
  "Put_steps (\<lambda>d. gcm_seal d (demo_key @ replicate 16 0) (replicate 12 0))
      (\<lambda>d. gcm_seal d (demo_key @ replicate 16 0) (1 # replicate 11 0))
      gcm_libs demo_db demo_key ''id1@sat1.example:7777'' True demo_rnd Map.empty
     = ((replicate 32 7, None),
        [demo_key \<mapsto>
          (\<lparr>SatelliteAddress = ''id1@sat1.example:7777'', MacaroonHead = [],
            EncryptedSecretKey = (demo_key @ replicate 16 0) @ replicate 12 0 @ replicate 32 7,
            EncryptedAccessGrant = (demo_key @ replicate 16 0) @ (1 # replicate 11 0)
               @ bytes_of_string ''id1@sat1.example:7777'',
            Public = True\<rparr>, [])])"
  by (simp add: Put_steps_def seal_and_store_def gcm_libs_def demo_ParseAccess_def
      demo_ParseNodeURL_def demo_db_def NewDatabase_def gcm_seal_def mem_KV_def mem_Put_def
      Hash_def demo_rnd_def copy_replicate)

lemma gcm_Get_steps:
  "Get_steps (\<lambda>c. gcm_open c (demo_key @ replicate 16 0) (replicate 12 0))
      (\<lambda>c. gcm_open c (demo_key @ replicate 16 0) (1 # replicate 11 0))
      gcm_libs demo_db demo_key
      [demo_key \<mapsto>
          (\<lparr>SatelliteAddress = ''id1@sat1.example:7777'', MacaroonHead = [],
            EncryptedSecretKey = (demo_key @ replicate 16 0) @ replicate 12 0 @ replicate 32 7,
            EncryptedAccessGrant = (demo_key @ replicate 16 0) @ (1 # replicate 11 0)
               @ bytes_of_string ''id1@sat1.example:7777'',
            Public = True\<rparr>, [])]
     = ((''id1@sat1.example:7777'', True, replicate 32 7, None),
        [demo_key \<mapsto>
          (\<lparr>SatelliteAddress = ''id1@sat1.example:7777'', MacaroonHead = [],
            EncryptedSecretKey = (demo_key @ replicate 16 0) @ replicate 12 0 @ replicate 32 7,
            EncryptedAccessGrant = (demo_key @ replicate 16 0) @ (1 # replicate 11 0)
               @ bytes_of_string ''id1@sat1.example:7777'',
            Public = True\<rparr>, [])])"
  by (simp add: Get_steps_def open_record_def gcm_libs_def demo_db_kv gcm_open_def mem_KV_def
      mem_Get_def Hash_def demo_key_def copy_replicate string_of_bytes_of_string)

theorem cipher_key_and_nonces_witness:
  "length demo_key = 16
   \<and> aesgcm_library gcm_libs gcm_seal gcm_open
   \<and> ToStorjKey demo_key = demo_key @ replicate 16 0
   \<and> Put gcm_libs demo_db demo_key ''id1@sat1.example:7777'' True demo_rnd Map.empty
     = ((replicate 32 7, None),
        [demo_key \<mapsto>
          (\<lparr>SatelliteAddress = ''id1@sat1.example:7777'', MacaroonHead = [],
            EncryptedSecretKey = (demo_key @ replicate 16 0) @ replicate 12 0 @ replicate 32 7,
            EncryptedAccessGrant = (demo_key @ replicate 16 0) @ (1 # replicate 11 0)
               @ bytes_of_string ''id1@sat1.example:7777'',
            Public = True\<rparr>, [])])
   \<and> Get gcm_libs demo_db demo_key
        [demo_key \<mapsto>
          (\<lparr>SatelliteAddress = ''id1@sat1.example:7777'', MacaroonHead = [],
            EncryptedSecretKey = (demo_key @ replicate 16 0) @ replicate 12 0 @ replicate 32 7,
            EncryptedAccessGrant = (demo_key @ replicate 16 0) @ (1 # replicate 11 0)
               @ bytes_of_string ''id1@sat1.example:7777'',
            Public = True\<rparr>, [])]
     = ((''id1@sat1.example:7777'', True, replicate 32 7, None),
        [demo_key \<mapsto>
          (\<lparr>SatelliteAddress = ''id1@sat1.example:7777'', MacaroonHead = [],
            EncryptedSecretKey = (demo_key @ replicate 16 0) @ replicate 12 0 @ replicate 32 7,
            EncryptedAccessGrant = (demo_key @ replicate 16 0) @ (1 # replicate 11 0)
               @ bytes_of_string ''id1@sat1.example:7777'',
            Public = True\<rparr>, [])])"
proof -
  let ?st = "[demo_key \<mapsto>
          (\<lparr>SatelliteAddress = ''id1@sat1.example:7777'', MacaroonHead = [],
            EncryptedSecretKey = (demo_key @ replicate 16 0) @ replicate 12 0 @ replicate 32 7,
            EncryptedAccessGrant = (demo_key @ replicate 16 0) @ (1 # replicate 11 0)
               @ bytes_of_string ''id1@sat1.example:7777'',
            Public = True\<rparr>, [])]"
  have len: "length demo_key = 16" by (simp add: demo_key_def)
  note c = cipher_key_and_nonces [OF len, of gcm_libs demo_db]
  from c [of "''id1@sat1.example:7777''" True demo_rnd Map.empty]
  have k: "ToStorjKey demo_key = demo_key @ replicate 16 0" by (rule conjunct1)
  from c [of "''id1@sat1.example:7777''" True demo_rnd Map.empty] gcm_library
  have p: "Put gcm_libs demo_db demo_key ''id1@sat1.example:7777'' True demo_rnd Map.empty
      = Put_steps (\<lambda>d. gcm_seal d (demo_key @ replicate 16 0) (replicate 12 0))
          (\<lambda>d. gcm_seal d (demo_key @ replicate 16 0) (1 # replicate 11 0))
          gcm_libs demo_db demo_key ''id1@sat1.example:7777'' True demo_rnd Map.empty"
    by blast
  from c [of "''id1@sat1.example:7777''" True demo_rnd ?st] gcm_library
  have g: "Get gcm_libs demo_db demo_key ?st
      = Get_steps (\<lambda>c. gcm_open c (demo_key @ replicate 16 0) (replicate 12 0))
          (\<lambda>c. gcm_open c (demo_key @ replicate 16 0) (1 # replicate 11 0))
          gcm_libs demo_db demo_key ?st"
    by blast
  show ?thesis
    unfolding p g gcm_Put_steps gcm_Get_steps using len gcm_library k by simp
qed

section \<open>Get without a live record\<close>

text \<open>
  C4 (amended). When the store's \<^verbatim>\<open>Get\<close> yields no record or an error, \<open>Get\<close> returns an
  empty grant, a false flag, a zero secret key and an error. When the store reported no
  error (no record), the error is a new one of the class \<open>NotFound\<close>. When the store
  reported an error, as for an invalidation that it reports by a sentinel, the error
  is that error passed through \<^verbatim>\<open>errs.Wrap\<close>, which is in the classes that the store's
  error is in, and in no other.
\<close>

theorem Get_without_record:
  assumes "kv_Get (kv db) (Hash L k) st = ((rec, err), st')" and "rec = None \<or> err \<noteq> None"
  shows "Get L db k st =
      (([], False, replicate 32 0,
        Some (case err of
                None \<Rightarrow> Class_New NotFound ''key hash: %x'' [ArgHex (Hash L k)]
              | Some e \<Rightarrow> errs_Wrap e)), st')
    \<and> Class_Has NotFound (Class_New NotFound ''key hash: %x'' [ArgHex (Hash L k)])
    \<and> (\<forall>e c. err = Some e \<longrightarrow> Class_Has c (errs_Wrap e) = Class_Has c e)"
  using assms
  by (auto simp: Get_def Let_def errs_Wrap_def Class_New_def split: option.splits)

theorem Get_without_record_witness:
  "kv_Get (kv demo_db) (Hash demo_libs demo_key)
      (snd (Invalidate demo_libs demo_db demo_key ''abuse''
         (snd (Put demo_libs demo_db demo_key ''id1@sat1.example:7777'' False demo_rnd
                 Map.empty))))
     = ((None, Some (Class_New Invalid ''%s'' [ArgStr ''abuse''])),
        snd (Invalidate demo_libs demo_db demo_key ''abuse''
         (snd (Put demo_libs demo_db demo_key ''id1@sat1.example:7777'' False demo_rnd
                 Map.empty))))
   \<and> Get demo_libs demo_db demo_key
      (snd (Invalidate demo_libs demo_db demo_key ''abuse''
         (snd (Put demo_libs demo_db demo_key ''id1@sat1.example:7777'' False demo_rnd
                 Map.empty))))
     = (([], False, replicate 32 0, Some (errs_Wrap (Class_New Invalid ''%s'' [ArgStr ''abuse'']))),
        snd (Invalidate demo_libs demo_db demo_key ''abuse''
         (snd (Put demo_libs demo_db demo_key ''id1@sat1.example:7777'' False demo_rnd
                 Map.empty))))
   \<and> Class_Has Invalid (errs_Wrap (Class_New Invalid ''%s'' [ArgStr ''abuse'']))
   \<and> Class_Has NotFound (errs_Wrap (Class_New Invalid ''%s'' [ArgStr ''abuse'']))
       = Class_Has NotFound (Class_New Invalid ''%s'' [ArgStr ''abuse''])
   \<and> kv_Get (kv demo_db) (Hash demo_libs [0]) Map.empty = ((None, None), Map.empty)
   \<and> Get demo_libs demo_db [0] Map.empty
     = (([], False, replicate 32 0,
         Some (Class_New NotFound ''key hash: %x'' [ArgHex (Hash demo_libs [0])])), Map.empty)
   \<and> Class_Has NotFound (Class_New NotFound ''key hash: %x'' [ArgHex (Hash demo_libs [0])])"
proof -
  let ?st = "snd (Invalidate demo_libs demo_db demo_key ''abuse''
         (snd (Put demo_libs demo_db demo_key ''id1@sat1.example:7777'' False demo_rnd
                 Map.empty)))"
  let ?e = "Class_New Invalid ''%s'' [ArgStr ''abuse'']"
  have h: "kv_Get (kv demo_db) (Hash demo_libs demo_key) ?st = ((None, Some ?e), ?st)"
    unfolding demo_Put_state
    by (simp add: Invalidate_def demo_db_kv mem_KV_def mem_Get_def mem_Invalidate_def Hash_def
        demo_libs_def)
  have d: "(None :: Record option) = None \<or> Some ?e \<noteq> None" by simp
  note c = Get_without_record [OF h d]
  from c have g: "Get demo_libs demo_db demo_key ?st
      = (([], False, replicate 32 0, Some (errs_Wrap ?e)), ?st)"
    by simp
  from c have cl: "Class_Has c (errs_Wrap ?e) = Class_Has c ?e" for c
    by blast
  have inv: "Class_Has Invalid ?e" by (simp add: Class_New_def)
  have h0: "kv_Get (kv demo_db) (Hash demo_libs [0]) Map.empty = ((None, None), Map.empty)"
    by (simp add: demo_db_kv mem_KV_def mem_Get_def)
  have d0: "(None :: Record option) = None \<or> (None :: error option) \<noteq> None" by simp
  note c0 = Get_without_record [OF h0 d0]
  from c0 have g0: "Get demo_libs demo_db [0] Map.empty
     = (([], False, replicate 32 0,
         Some (Class_New NotFound ''key hash: %x'' [ArgHex (Hash demo_libs [0])])), Map.empty)"
    by simp
  from c0 have n0: "Class_Has NotFound (Class_New NotFound ''key hash: %x''
      [ArgHex (Hash demo_libs [0])])"
    by blast
  show ?thesis
    by (intro conjI h g h0 g0 n0) (simp_all only: cl [of Invalid] cl [of NotFound] inv)
qed

text \<open>
  C4 as stated fails: on the store in memory, \<open>Get\<close> of an invalidated key returns the
  store's \<open>Invalid\<close> error, which is not in \<open>NotFound\<close>, while \<open>Get\<close> of a key that never
  existed returns a \<open>NotFound\<close> error.
\<close>

theorem invalidated_is_not_NotFound:
  "fst (Get demo_libs demo_db demo_key
         (snd (Invalidate demo_libs demo_db demo_key ''abuse''
            (snd (Put demo_libs demo_db demo_key ''id1@sat1.example:7777'' False demo_rnd
                    Map.empty)))))
     = ([], False, replicate 32 0, Some (Class_New Invalid ''%s'' [ArgStr ''abuse'']))
   \<and> \<not> Class_Has NotFound (Class_New Invalid ''%s'' [ArgStr ''abuse''])
   \<and> fst (Get demo_libs demo_db demo_key Map.empty)
     = ([], False, replicate 32 0, Some (Class_New NotFound ''key hash: %x'' [ArgHex demo_key]))
   \<and> Class_Has NotFound (Class_New NotFound ''key hash: %x'' [ArgHex demo_key])"
  unfolding demo_Put_state
  by (simp add: Get_def Invalidate_def demo_db_kv mem_KV_def mem_Get_def mem_Invalidate_def
      Hash_def demo_libs_def Let_def errs_Wrap_def Class_New_def NotFound_def Invalid_def)

section \<open>The allow-list\<close>

lemma RemoveNodeIDs_loop_set:
  "RemoveNodeIDs_loop L acc ss = Inr p \<Longrightarrow>
   set p = set acc \<union> {x. \<exists>s \<in> set ss. \<exists>v. ParseNodeURL L s = Inr v \<and> Address v = x}"
proof (induction ss arbitrary: acc)
  case Nil
  then show ?case by simp
next
  case (Cons s ss)
  then obtain v where v: "ParseNodeURL L s = Inr v"
    and rest: "RemoveNodeIDs_loop L (acc @ [Address v]) ss = Inr p"
    by (auto split: sum.splits)
  from Cons.IH [OF rest] v show ?case by auto
qed

lemma fold_allowed:
  "fold (\<lambda>sat m. m(sat \<mapsto> ())) xs m0 x = (if x \<in> set xs then Some () else m0 x)"
  by (induction xs arbitrary: m0) auto

lemma NewDatabase_allowed:
  "allowedSatelliteAddresses (NewDatabase K p) x = (if x \<in> set p then Some () else None)"
  by (simp add: NewDatabase_def fold_allowed)

text \<open>
  C5. Let the allow-list be built by \<open>NewDatabase\<close> from the result of \<open>RemoveNodeIDs\<close> on
  the configured node URLs. Then it holds exactly the address components of the
  configured URLs. For a grant that parses and whose satellite address parses, \<open>Put\<close>
  goes on to the random source, the encryptions and the store when that address
  component is the address component of a configured URL, whatever the node IDs are,
  and fails with the disallowed-satellite error, the store untouched, when it is not.
\<close>

theorem allow_list_by_address:
  assumes "RemoveNodeIDs L urls = Inr p"
    and "ParseAccess L g = Inr a"
    and "ParseNodeURL L (access_SatelliteAddress a) = Inr u"
  shows "(\<forall>x. allowedSatelliteAddresses (NewDatabase K p) x \<noteq> None \<longleftrightarrow>
            (\<exists>s \<in> set urls. \<exists>v. ParseNodeURL L s = Inr v \<and> Address v = x))
    \<and> Put L (NewDatabase K p) k g pub rnd st =
        (if \<exists>s \<in> set urls. \<exists>v. ParseNodeURL L s = Inr v \<and> Address v = Address u
         then seal_and_store (\<lambda>d. Encrypt L d EncAESGCM (ToStorjKey k) (Nonce []))
                (\<lambda>d. Encrypt L d EncAESGCM (ToStorjKey k) (Nonce [1])) K (Hash L k) a g pub rnd st
         else ((replicate 32 0, Some (disallowed_satellite (access_SatelliteAddress a))), st))"
proof -
  have mem: "allowedSatelliteAddresses (NewDatabase K p) x \<noteq> None \<longleftrightarrow>
      (\<exists>s \<in> set urls. \<exists>v. ParseNodeURL L s = Inr v \<and> Address v = x)" for x
    using RemoveNodeIDs_loop_set [of L "[]" urls p] assms(1)
    by (auto simp add: NewDatabase_allowed RemoveNodeIDs_def)
  have kv: "kv (NewDatabase K p) = K" by (simp add: NewDatabase_def)
  note steps = Put_is_Put_steps [of L "NewDatabase K p" k g pub rnd st]
  show ?thesis
  proof (cases "\<exists>s \<in> set urls. \<exists>v. ParseNodeURL L s = Inr v \<and> Address v = Address u")
    case True
    with mem have "allowedSatelliteAddresses (NewDatabase K p) (Address u) \<noteq> None" by blast
    with assms(2,3) kv have "Put L (NewDatabase K p) k g pub rnd st
        = seal_and_store (\<lambda>d. Encrypt L d EncAESGCM (ToStorjKey k) (Nonce []))
            (\<lambda>d. Encrypt L d EncAESGCM (ToStorjKey k) (Nonce [1])) K (Hash L k) a g pub rnd st"
      unfolding steps by (simp add: Put_steps_def)
    with mem show ?thesis unfolding if_P [OF True] by blast
  next
    case False
    with mem have "allowedSatelliteAddresses (NewDatabase K p) (Address u) = None" by blast
    with assms(2,3) have "Put L (NewDatabase K p) k g pub rnd st
           = ((replicate 32 0, Some (disallowed_satellite (access_SatelliteAddress a))), st)"
      by (simp add: Put_def)
    with mem show ?thesis unfolding if_not_P [OF False] by blast
  qed
qed

lemma demo_seal_and_store:
  "seal_and_store (\<lambda>d. Encrypt demo_libs d EncAESGCM (ToStorjKey demo_key) (Nonce []))
      (\<lambda>d. Encrypt demo_libs d EncAESGCM (ToStorjKey demo_key) (Nonce [1])) mem_KV
      (Hash demo_libs demo_key)
      \<lparr>access_SatelliteAddress = ''idB@sat1.example:7777'', APIKey_Head = []\<rparr>
      ''idB@sat1.example:7777'' False demo_rnd Map.empty
     = ((replicate 32 7, None),
        [demo_key \<mapsto>
          (\<lparr>SatelliteAddress = ''idB@sat1.example:7777'', MacaroonHead = [],
            EncryptedSecretKey = ToStorjKey demo_key @ Nonce [] @ replicate 32 7,
            EncryptedAccessGrant =
              ToStorjKey demo_key @ Nonce [1] @ bytes_of_string ''idB@sat1.example:7777'',
            Public = False\<rparr>, [])])"
  by (simp add: seal_and_store_def demo_libs_def demo_Encrypt_def mem_KV_def mem_Put_def
      Hash_def demo_rnd_def copy_replicate)

theorem allow_list_by_address_witness:
  "RemoveNodeIDs demo_libs [''idA@sat1.example:7777''] = Inr [''sat1.example:7777'']
   \<and> ParseAccess demo_libs ''idB@sat1.example:7777''
       = Inr \<lparr>access_SatelliteAddress = ''idB@sat1.example:7777'', APIKey_Head = []\<rparr>
   \<and> ParseNodeURL demo_libs ''idB@sat1.example:7777''
       = Inr \<lparr>ID = bytes_of_string ''idB'', Address = ''sat1.example:7777''\<rparr>
   \<and> allowedSatelliteAddresses (NewDatabase mem_KV [''sat1.example:7777'']) ''sat1.example:7777''
       \<noteq> None
   \<and> allowedSatelliteAddresses (NewDatabase mem_KV [''sat1.example:7777''])
       ''idA@sat1.example:7777'' = None
   \<and> Put demo_libs (NewDatabase mem_KV [''sat1.example:7777'']) demo_key
         ''idB@sat1.example:7777'' False demo_rnd Map.empty
     = ((replicate 32 7, None),
        [demo_key \<mapsto>
          (\<lparr>SatelliteAddress = ''idB@sat1.example:7777'', MacaroonHead = [],
            EncryptedSecretKey = ToStorjKey demo_key @ Nonce [] @ replicate 32 7,
            EncryptedAccessGrant =
              ToStorjKey demo_key @ Nonce [1] @ bytes_of_string ''idB@sat1.example:7777'',
            Public = False\<rparr>, [])])"
proof -
  let ?a = "\<lparr>access_SatelliteAddress = ''idB@sat1.example:7777'', APIKey_Head = []\<rparr>"
  let ?u = "\<lparr>ID = bytes_of_string ''idB'', Address = ''sat1.example:7777''\<rparr>"
  have h1: "RemoveNodeIDs demo_libs [''idA@sat1.example:7777''] = Inr [''sat1.example:7777'']"
    by (simp add: RemoveNodeIDs_def demo_libs_def demo_ParseNodeURL_def)
  have h2: "ParseAccess demo_libs ''idB@sat1.example:7777'' = Inr ?a"
    by (simp add: demo_libs_def demo_ParseAccess_def)
  have h3: "ParseNodeURL demo_libs (access_SatelliteAddress ?a) = Inr ?u"
    by (simp add: demo_libs_def demo_ParseNodeURL_def)
  have h4: "\<exists>s \<in> set [''idA@sat1.example:7777'']. \<exists>v. ParseNodeURL demo_libs s = Inr v
      \<and> Address v = Address ?u"
    by (simp add: demo_libs_def demo_ParseNodeURL_def)
  have h5: "\<not> (\<exists>s \<in> set [''idA@sat1.example:7777'']. \<exists>v. ParseNodeURL demo_libs s = Inr v
      \<and> Address v = ''idA@sat1.example:7777'')"
    by (simp add: demo_libs_def demo_ParseNodeURL_def)
  note c = allow_list_by_address [OF h1 h2 h3, of mem_KV demo_key False demo_rnd Map.empty]
  from c h4 have yes: "allowedSatelliteAddresses (NewDatabase mem_KV [''sat1.example:7777''])
      ''sat1.example:7777'' \<noteq> None"
    by (simp add: demo_libs_def demo_ParseNodeURL_def)
  from c h5 have no: "allowedSatelliteAddresses (NewDatabase mem_KV [''sat1.example:7777''])
      ''idA@sat1.example:7777'' = None"
    by blast
  from c have "Put demo_libs (NewDatabase mem_KV [''sat1.example:7777'']) demo_key
         ''idB@sat1.example:7777'' False demo_rnd Map.empty
     = seal_and_store (\<lambda>d. Encrypt demo_libs d EncAESGCM (ToStorjKey demo_key) (Nonce []))
        (\<lambda>d. Encrypt demo_libs d EncAESGCM (ToStorjKey demo_key) (Nonce [1])) mem_KV
        (Hash demo_libs demo_key) ?a ''idB@sat1.example:7777'' False demo_rnd Map.empty"
    unfolding if_P [OF h4] by (rule conjunct2)
  then have put: "Put demo_libs (NewDatabase mem_KV [''sat1.example:7777'']) demo_key
         ''idB@sat1.example:7777'' False demo_rnd Map.empty
     = ((replicate 32 7, None),
        [demo_key \<mapsto>
          (\<lparr>SatelliteAddress = ''idB@sat1.example:7777'', MacaroonHead = [],
            EncryptedSecretKey = ToStorjKey demo_key @ Nonce [] @ replicate 32 7,
            EncryptedAccessGrant =
              ToStorjKey demo_key @ Nonce [1] @ bytes_of_string ''idB@sat1.example:7777'',
            Public = False\<rparr>, [])])"
    unfolding demo_seal_and_store .
  from h3 have h3': "ParseNodeURL demo_libs ''idB@sat1.example:7777'' = Inr ?u" by simp
  show ?thesis by (intro conjI h1 h2 h3' yes no put)
qed

section \<open>A second Put\<close>









end
